theory Spec2Isabelle
  imports Complex_Main
begin

section \<open>The PlayMusic local API (server/index.js)\<close>

text \<open>
  The server keeps two module-level arrays, \<open>tracks\<close> and \<open>videos\<close>, mirrors each to a
  JSON file after every mutation, and answers HTTP requests through Express routes.
  The embedding follows index.js function by function. What JavaScript leaves implicit is
  made explicit: the values a handler reads from the clock and from \<open>Math.random\<close>, whether
  \<open>fs.writeFileSync\<close> throws, and the \<open>TypeError\<close> of a method call on a value that has
  no such method.
\<close>

subsection \<open>JavaScript values\<close>

text \<open>
  Values as they live in memory after \<open>JSON.parse\<close> and object literals. A string is the
  list of its characters; numbers are reals (only their truthiness is ever inspected).
\<close>

datatype jsval =
    JUndefined
  | JNull
  | JBool bool
  | JNum real
  | JStr string
  | JArr "jsval list"
  | JObj "(string \<times> jsval) list"

text \<open>An object is its list of own properties, in creation order.\<close>

type_synonym obj = "(string \<times> jsval) list"

text \<open>Property read \<open>o.k\<close>: a missing property reads as \<open>undefined\<close>.\<close>

fun field :: "obj \<Rightarrow> string \<Rightarrow> jsval" where
  "field [] k = JUndefined"
| "field ((k', v) # ps) k = (if k' = k then v else field ps k)"

text \<open>Truthiness, as \<open>!x\<close>, \<open>x || y\<close> and \<open>x && y\<close> test it.\<close>

fun truthy :: "jsval \<Rightarrow> bool" where
  "truthy JUndefined = False"
| "truthy JNull = False"
| "truthy (JBool b) = b"
| "truthy (JNum x) = (x \<noteq> 0)"
| "truthy (JStr s) = (s \<noteq> [])"
| "truthy (JArr xs) = True"
| "truthy (JObj ps) = True"

text \<open>\<open>x || null\<close>\<close>

definition or_null :: "jsval \<Rightarrow> jsval" where
  "or_null x = (if truthy x then x else JNull)"

subsection \<open>Strings\<close>

fun startsWith :: "string \<Rightarrow> string \<Rightarrow> bool" where
  "startsWith s [] = True"
| "startsWith [] (d # ds) = False"
| "startsWith (c # cs) (d # ds) = (c = d \<and> startsWith cs ds)"

text \<open>\<open>s.includes(q)\<close>: \<open>q\<close> occurs in \<open>s\<close> at some position.\<close>

fun includes_str :: "string \<Rightarrow> string \<Rightarrow> bool" where
  "includes_str [] q = (q = [])"
| "includes_str (c # cs) q = (startsWith (c # cs) q \<or> includes_str cs q)"

text \<open>
  Number to string for a non-negative integer (the decimal digits, no leading zero), as the
  template literal of \<open>generateId\<close> renders \<open>Date.now()\<close> and the floored random number.
\<close>

definition digit_char :: "nat \<Rightarrow> char" where
  "digit_char d = char_of (48 + d)"

function show_nat :: "nat \<Rightarrow> string" where
  "show_nat n = (if n < 10 then [digit_char n] else show_nat (n div 10) @ [digit_char (n mod 10)])"
  by pat_completeness auto
termination
  by (relation "measure (\<lambda>n. n)") auto

declare show_nat.simps [simp del]

subsection \<open>Environment and server state\<close>

text \<open>
  What one request takes from outside the program: \<open>Date.now()\<close>, the value of
  \<open>Math.floor(Math.random() * 10000)\<close> (a natural number below 10000),
  \<open>new Date().toISOString()\<close>, whether \<open>fs.writeFileSync\<close> returns (\<open>True\<close>) or
  throws (\<open>False\<close>), and \<open>String.prototype.toLowerCase\<close>. The last one follows the
  case mappings of Unicode, which the engine supplies: it is taken as given, not defined
  here, and every property below holds whatever function it is.
\<close>

record env =
  now :: nat
  rnd :: nat
  iso :: string
  write_ok :: bool
  toLowerCase :: "string \<Rightarrow> string"

text \<open>
  A file on disk, seen through \<open>fs.existsSync\<close>, \<open>fs.readFileSync\<close> and \<open>JSON.parse\<close>:
  it does not exist, or it exists and reading or parsing it throws, or it parses to a value.
  The persisted files and the seed library are arrays of objects.
\<close>

datatype 'a disk_file = Absent | Malformed | Parsed 'a

text \<open>
  The module-level state: the two arrays, the two persisted files and the lines written
  with \<open>console.error\<close>.
\<close>

record server =
  tracks :: "obj list"
  videos :: "obj list"
  data_json :: "obj list disk_file"
  videos_json :: "obj list disk_file"
  console :: "string list"

text \<open>
  What \<open>JSON.stringify\<close> keeps of a value: a property whose value is \<open>undefined\<close> is
  left out, an \<open>undefined\<close> array element is written as \<open>null\<close>.
\<close>

fun stringify :: "jsval \<Rightarrow> jsval"
  and stringify_elems :: "jsval list \<Rightarrow> jsval list"
  and stringify_props :: "obj \<Rightarrow> obj" where
  "stringify (JArr xs) = JArr (stringify_elems xs)"
| "stringify (JObj ps) = JObj (stringify_props ps)"
| "stringify JUndefined = JUndefined"
| "stringify JNull = JNull"
| "stringify (JBool b) = JBool b"
| "stringify (JNum x) = JNum x"
| "stringify (JStr s) = JStr s"
| "stringify_elems [] = []"
| "stringify_elems (x # xs) =
     (if x = JUndefined then JNull else stringify x) # stringify_elems xs"
| "stringify_props [] = []"
| "stringify_props ((k, v) # ps) =
     (if v = JUndefined then stringify_props ps else (k, stringify v) # stringify_props ps)"

definition stringify_all :: "obj list \<Rightarrow> obj list" where
  "stringify_all xs = map stringify_props xs"

subsection \<open>Identifiers and persistence\<close>

text \<open>\<open>generateId\<close>: \<open>`${Date.now()}-${Math.floor(Math.random() * 10000)}`\<close>\<close>

definition generateId :: "nat \<Rightarrow> nat \<Rightarrow> string" where
  "generateId t r = show_nat t @ ''-'' @ show_nat r"

text \<open>
  \<open>saveTracks\<close> and \<open>saveVideos\<close>: write the whole array; a throwing write is caught and
  logged, and the function returns normally.
\<close>

definition saveTracks :: "env \<Rightarrow> server \<Rightarrow> server" where
  "saveTracks e s =
     (if write_ok e then s\<lparr>data_json := Parsed (stringify_all (tracks s))\<rparr>
      else s\<lparr>console := console s @ [''Failed to save data.json'']\<rparr>)"

definition saveVideos :: "env \<Rightarrow> server \<Rightarrow> server" where
  "saveVideos e s =
     (if write_ok e then s\<lparr>videos_json := Parsed (stringify_all (videos s))\<rparr>
      else s\<lparr>console := console s @ [''Failed to save videos.json'']\<rparr>)"

subsection \<open>Responses and handlers\<close>

text \<open>
  A response is a status with a JSON body (\<open>res.status(n).json(v)\<close>; \<open>res.json(v)\<close> is status
  200), or the 500 that Express sends when a handler throws, or the 404 page that Express
  sends when no route matches.
\<close>

datatype response = Reply nat jsval | Crash | NoRoute

definition not_found :: jsval where
  "not_found = JObj [(''error'', JStr ''Not found'')]"

definition has_id :: "string \<Rightarrow> obj \<Rightarrow> bool" where
  "has_id i x = (field x ''id'' = JStr i)"

text \<open>\<open>Array.prototype.findIndex\<close>, with \<open>None\<close> for \<open>-1\<close>.\<close>

fun findIndex :: "('a \<Rightarrow> bool) \<Rightarrow> 'a list \<Rightarrow> nat option" where
  "findIndex P [] = None"
| "findIndex P (x # xs) =
     (if P x then Some 0 else (case findIndex P xs of None \<Rightarrow> None | Some i \<Rightarrow> Some (Suc i)))"

text \<open>\<open>xs.splice(i, 1)\<close> leaves \<open>xs\<close> without its element at index \<open>i\<close>.\<close>

definition splice1 :: "nat \<Rightarrow> 'a list \<Rightarrow> 'a list" where
  "splice1 i xs = take i xs @ drop (Suc i) xs"

text \<open>GET /tracks\<close>

definition tracks_list :: "server \<Rightarrow> response" where
  "tracks_list s = Reply 200 (JArr (map JObj (tracks s)))"

text \<open>GET /tracks/:id\<close>

definition tracks_get :: "string \<Rightarrow> server \<Rightarrow> response" where
  "tracks_get i s =
     (case find (has_id i) (tracks s) of
        None \<Rightarrow> Reply 404 not_found
      | Some t \<Rightarrow> Reply 200 (JObj t))"

text \<open>POST /tracks\<close>

definition tracks_post :: "env \<Rightarrow> obj \<Rightarrow> server \<Rightarrow> response \<times> server" where
  "tracks_post e b s =
     (if \<not> truthy (field b ''url'') \<or> \<not> truthy (field b ''title'')
      then (Reply 400 (JObj [(''error'', JStr ''url and title are required'')]), s)
      else
        (let t = [(''id'', JStr (generateId (now e) (rnd e))),
                  (''url'', field b ''url''),
                  (''title'', field b ''title''),
                  (''artist'', field b ''artist''),
                  (''artwork'', field b ''artwork'')]
         in (Reply 201 (JObj t), saveTracks e (s\<lparr>tracks := tracks s @ [t]\<rparr>))))"

text \<open>DELETE /tracks/:id\<close>

definition tracks_delete :: "env \<Rightarrow> string \<Rightarrow> server \<Rightarrow> response \<times> server" where
  "tracks_delete e i s =
     (case findIndex (has_id i) (tracks s) of
        None \<Rightarrow> (Reply 404 not_found, s)
      | Some idx \<Rightarrow>
          (Reply 200 (JObj (tracks s ! idx)),
           saveTracks e (s\<lparr>tracks := splice1 idx (tracks s)\<rparr>)))"

text \<open>GET /videos\<close>

definition videos_list :: "server \<Rightarrow> response" where
  "videos_list s = Reply 200 (JArr (map JObj (videos s)))"

text \<open>GET /videos/:id\<close>

definition videos_get :: "string \<Rightarrow> server \<Rightarrow> response" where
  "videos_get i s =
     (case find (has_id i) (videos s) of
        None \<Rightarrow> Reply 404 not_found
      | Some v \<Rightarrow> Reply 200 (JObj v))"

text \<open>POST /videos\<close>

definition videos_post :: "env \<Rightarrow> obj \<Rightarrow> server \<Rightarrow> response \<times> server" where
  "videos_post e b s =
     (if \<not> truthy (field b ''url'') \<and> \<not> truthy (field b ''localUri'')
      then (Reply 400 (JObj [(''error'', JStr ''url or localUri is required'')]), s)
      else if \<not> truthy (field b ''title'')
      then (Reply 400 (JObj [(''error'', JStr ''title is required'')]), s)
      else
        (let v = [(''id'', JStr (generateId (now e) (rnd e))),
                  (''url'', or_null (field b ''url'')),
                  (''localUri'', or_null (field b ''localUri'')),
                  (''title'', field b ''title''),
                  (''thumbnail'', or_null (field b ''thumbnail'')),
                  (''duration'', or_null (field b ''duration'')),
                  (''createdAt'', JStr (iso e))]
         in (Reply 201 (JObj v), saveVideos e (s\<lparr>videos := videos s @ [v]\<rparr>))))"

text \<open>DELETE /videos/:id\<close>

definition videos_delete :: "env \<Rightarrow> string \<Rightarrow> server \<Rightarrow> response \<times> server" where
  "videos_delete e i s =
     (case findIndex (has_id i) (videos s) of
        None \<Rightarrow> (Reply 404 not_found, s)
      | Some idx \<Rightarrow>
          (Reply 200 (JObj (videos s ! idx)),
           saveVideos e (s\<lparr>videos := splice1 idx (videos s)\<rparr>)))"

subsection \<open>Search\<close>

text \<open>
  A method call on a value without that method throws; the handler does not catch it and
  Express answers 500.
\<close>

datatype js_error = TypeError

text \<open>
  In the definitions of this subsection \<open>lc\<close> is \<open>String.prototype.toLowerCase\<close>.

  \<open>req.query.q?.toLowerCase() || ''\<close>: no \<open>q\<close> gives the empty query, a string is
  lower-cased, an array or object (a repeated or bracketed parameter) has no
  \<open>toLowerCase\<close>.
\<close>

fun query_of :: "(string \<Rightarrow> string) \<Rightarrow> jsval \<Rightarrow> js_error + string" where
  "query_of lc JUndefined = Inr []"
| "query_of lc JNull = Inr []"
| "query_of lc (JStr s) = Inr (lc s)"
| "query_of lc v = Inl TypeError"

text \<open>
  \<open>x?.toLowerCase().includes(query)\<close>: the optional chain stops at \<open>undefined\<close> and
  \<open>null\<close> with the falsy result \<open>undefined\<close>.
\<close>

fun field_match :: "(string \<Rightarrow> string) \<Rightarrow> jsval \<Rightarrow> string \<Rightarrow> js_error + bool" where
  "field_match lc JUndefined q = Inr False"
| "field_match lc JNull q = Inr False"
| "field_match lc (JStr s) q = Inr (includes_str (lc s) q)"
| "field_match lc v q = Inl TypeError"

text \<open>\<open>ps.some(p => p.toLowerCase().includes(query))\<close>, stopping at the first hit.\<close>

fun playlist_some :: "(string \<Rightarrow> string) \<Rightarrow> jsval list \<Rightarrow> string \<Rightarrow> js_error + bool" where
  "playlist_some lc [] q = Inr False"
| "playlist_some lc (JStr s # ps) q =
     (if includes_str (lc s) q then Inr True else playlist_some lc ps q)"
| "playlist_some lc (v # ps) q = Inl TypeError"

text \<open>\<open>t.playlist && t.playlist.some(...)\<close>\<close>

fun playlist_match :: "(string \<Rightarrow> string) \<Rightarrow> jsval \<Rightarrow> string \<Rightarrow> js_error + bool" where
  "playlist_match lc (JArr ps) q = playlist_some lc ps q"
| "playlist_match lc v q = (if truthy v then Inl TypeError else Inr False)"

text \<open>\<open>a || b\<close> on the truthiness of the operands: \<open>b\<close> is evaluated only when \<open>a\<close> is falsy.\<close>

fun or_else :: "js_error + bool \<Rightarrow> js_error + bool \<Rightarrow> js_error + bool" where
  "or_else (Inl err) b = Inl err"
| "or_else (Inr True) b = Inr True"
| "or_else (Inr False) b = b"

definition track_matches :: "(string \<Rightarrow> string) \<Rightarrow> string \<Rightarrow> obj \<Rightarrow> js_error + bool" where
  "track_matches lc q t =
     or_else (field_match lc (field t ''title'') q)
       (or_else (field_match lc (field t ''artist'') q)
          (or_else (field_match lc (field t ''url'') q)
             (playlist_match lc (field t ''playlist'') q)))"

definition video_matches :: "(string \<Rightarrow> string) \<Rightarrow> string \<Rightarrow> obj \<Rightarrow> js_error + bool" where
  "video_matches lc q v =
     or_else (field_match lc (field v ''title'') q) (field_match lc (field v ''url'') q)"

text \<open>\<open>Array.prototype.filter\<close> with a callback that may throw.\<close>

fun filter_js :: "('a \<Rightarrow> js_error + bool) \<Rightarrow> 'a list \<Rightarrow> js_error + 'a list" where
  "filter_js P [] = Inr []"
| "filter_js P (x # xs) =
     (case P x of
        Inl err \<Rightarrow> Inl err
      | Inr b \<Rightarrow>
          (case filter_js P xs of
             Inl err \<Rightarrow> Inl err
           | Inr ys \<Rightarrow> Inr (if b then x # ys else ys)))"

text \<open>The handler registered for GET /tracks/search\<close>

definition tracks_search :: "(string \<Rightarrow> string) \<Rightarrow> jsval \<Rightarrow> server \<Rightarrow> response" where
  "tracks_search lc qv s =
     (case query_of lc qv of
        Inl err \<Rightarrow> Crash
      | Inr query \<Rightarrow>
          if query = [] then Reply 200 (JArr [])
          else (case filter_js (track_matches lc query) (tracks s) of
                  Inl err \<Rightarrow> Crash
                | Inr filtered \<Rightarrow> Reply 200 (JArr (map JObj filtered))))"

text \<open>The handler registered for GET /videos/search\<close>

definition videos_search :: "(string \<Rightarrow> string) \<Rightarrow> jsval \<Rightarrow> server \<Rightarrow> response" where
  "videos_search lc qv s =
     (case query_of lc qv of
        Inl err \<Rightarrow> Crash
      | Inr query \<Rightarrow>
          if query = [] then Reply 200 (JArr [])
          else (case filter_js (video_matches lc query) (videos s) of
                  Inl err \<Rightarrow> Crash
                | Inr filtered \<Rightarrow> Reply 200 (JArr (map JObj filtered))))"

subsection \<open>Routing\<close>

text \<open>
  A request: its method, the segments of its path (\<open>/tracks/42\<close> is \<open>[''tracks'', ''42'']\<close>),
  the query parameter \<open>q\<close> and the parsed JSON body.
\<close>

datatype verb = GET | POST | DELETE

record request =
  verb :: verb
  path :: "string list"
  query_q :: jsval
  body :: obj

text \<open>
  Express tries the routes in the order of their registration and runs the first one whose
  method and path match; none of the handlers calls \<open>next\<close>. A parameter segment \<open>:id\<close>
  matches any non-empty segment. A literal segment is matched by a regular expression
  that ignores case. The literals of the route table are lower-case ASCII words, and such
  an expression never equates an ASCII character with a non-ASCII one, so a segment matches
  a literal exactly when moving its letters A to Z (codes 65 to 90) to a to z gives the
  literal.
\<close>

definition fold_char :: "char \<Rightarrow> char" where
  "fold_char c =
     (if 65 \<le> (of_char c :: nat) \<and> (of_char c :: nat) \<le> 90
      then char_of ((of_char c :: nat) + 32) else c)"

definition fold_case :: "string \<Rightarrow> string" where
  "fold_case s = map fold_char s"

definition lit :: "string \<Rightarrow> string \<Rightarrow> bool" where
  "lit l seg = (fold_case seg = l)"

fun route1 :: "string \<Rightarrow> string list \<Rightarrow> bool" where
  "route1 l [a] = lit l a"
| "route1 l segs = False"

fun route_id :: "string \<Rightarrow> string list \<Rightarrow> string option" where
  "route_id l [a, i] = (if lit l a \<and> i \<noteq> [] then Some i else None)"
| "route_id l segs = None"

fun route2 :: "string \<Rightarrow> string \<Rightarrow> string list \<Rightarrow> bool" where
  "route2 l m [a, b] = (lit l a \<and> lit m b)"
| "route2 l m segs = False"

text \<open>The handlers, named by the route each was registered under.\<close>

datatype endpoint =
    TracksList
  | TracksGet string
  | TracksPost
  | TracksDelete string
  | TracksSearch
  | VideosList
  | VideosGet string
  | VideosPost
  | VideosDelete string
  | VideosSearch

fun first_match :: "'a option list \<Rightarrow> 'a option" where
  "first_match [] = None"
| "first_match (None # rs) = first_match rs"
| "first_match (Some x # rs) = Some x"

text \<open>The route table, in the order of the \<open>app.get\<close>, \<open>app.post\<close> and \<open>app.delete\<close> calls.\<close>

definition resolve :: "verb \<Rightarrow> string list \<Rightarrow> endpoint option" where
  "resolve v p =
     first_match
       [if v = GET \<and> route1 ''tracks'' p then Some TracksList else None,
        if v = GET then map_option TracksGet (route_id ''tracks'' p) else None,
        if v = POST \<and> route1 ''tracks'' p then Some TracksPost else None,
        if v = DELETE then map_option TracksDelete (route_id ''tracks'' p) else None,
        if v = GET \<and> route2 ''tracks'' ''search'' p then Some TracksSearch else None,
        if v = GET \<and> route1 ''videos'' p then Some VideosList else None,
        if v = GET then map_option VideosGet (route_id ''videos'' p) else None,
        if v = POST \<and> route1 ''videos'' p then Some VideosPost else None,
        if v = DELETE then map_option VideosDelete (route_id ''videos'' p) else None,
        if v = GET \<and> route2 ''videos'' ''search'' p then Some VideosSearch else None]"

fun run :: "endpoint \<Rightarrow> env \<Rightarrow> request \<Rightarrow> server \<Rightarrow> response \<times> server" where
  "run TracksList e r s = (tracks_list s, s)"
| "run (TracksGet i) e r s = (tracks_get i s, s)"
| "run TracksPost e r s = tracks_post e (body r) s"
| "run (TracksDelete i) e r s = tracks_delete e i s"
| "run TracksSearch e r s = (tracks_search (toLowerCase e) (query_q r) s, s)"
| "run VideosList e r s = (videos_list s, s)"
| "run (VideosGet i) e r s = (videos_get i s, s)"
| "run VideosPost e r s = videos_post e (body r) s"
| "run (VideosDelete i) e r s = videos_delete e i s"
| "run VideosSearch e r s = (videos_search (toLowerCase e) (query_q r) s, s)"

text \<open>One request against the server.\<close>

definition handle :: "env \<Rightarrow> request \<Rightarrow> server \<Rightarrow> response \<times> server" where
  "handle e r s =
     (case resolve (verb r) (path r) of
        None \<Rightarrow> (NoRoute, s)
      | Some ep \<Rightarrow> run ep e r s)"

subsection \<open>Start-up\<close>

text \<open>
  \<open>{ id: generateId(), ...t }\<close>: the literal first creates \<open>id\<close>, then the spread copies
  the own properties of \<open>t\<close> in order; copying a key that exists overwrites its value in
  place.
\<close>

fun obj_set :: "string \<Rightarrow> jsval \<Rightarrow> obj \<Rightarrow> obj" where
  "obj_set k v [] = [(k, v)]"
| "obj_set k v ((k', v') # ps) = (if k' = k then (k, v) # ps else (k', v') # obj_set k v ps)"

fun spread :: "obj \<Rightarrow> obj \<Rightarrow> obj" where
  "spread target [] = target"
| "spread target ((k, v) # ps) = spread (obj_set k v target) ps"

text \<open>
  \<open>arr.map((t) => ({ id: generateId(), ...t }))\<close>. Each call of \<open>generateId\<close> reads the clock
  and the random generator anew: \<open>gen k\<close> is what the \<open>k\<close>-th call reads.
\<close>

fun ensure_ids :: "(nat \<Rightarrow> nat \<times> nat) \<Rightarrow> nat \<Rightarrow> obj list \<Rightarrow> obj list" where
  "ensure_ids gen k [] = []"
| "ensure_ids gen k (t # ts) =
     spread [(''id'', JStr (generateId (fst (gen k)) (snd (gen k))))] t
       # ensure_ids gen (Suc k) ts"

text \<open>
  What \<open>loadTracks\<close> leaves behind: the array it returns, the persisted file as it is
  afterwards and the lines it logged.
\<close>

record loaded =
  result :: "obj list"
  file_after :: "obj list disk_file"
  logged :: "string list"

text \<open>
  \<open>loadTracks\<close>, from the persisted file, the seed file, the readings \<open>gen\<close> and whether the
  write of the seeded array succeeds (\<open>ok\<close>). The write stands inside the \<open>try\<close> of the
  seed branch, so a throwing write is caught there and the function falls through to
  \<open>return []\<close>.
\<close>

definition loadTracks ::
  "(nat \<Rightarrow> nat \<times> nat) \<Rightarrow> bool \<Rightarrow> obj list disk_file \<Rightarrow> obj list disk_file \<Rightarrow> loaded" where
  "loadTracks gen ok data seed =
     (case data of
        Parsed ts \<Rightarrow> \<lparr>result = ts, file_after = data, logged = []\<rparr>
      | _ \<Rightarrow>
          (let log1 = (if data = Malformed
                       then [''Failed to read data.json, falling back to seed''] else [])
           in case seed of
                Absent \<Rightarrow> \<lparr>result = [], file_after = data, logged = log1\<rparr>
              | Malformed \<Rightarrow>
                  \<lparr>result = [], file_after = data,
                   logged = log1 @ [''Failed to load seed library.json'']\<rparr>
              | Parsed arr \<Rightarrow>
                  (let mapped = ensure_ids gen 0 arr
                   in if ok
                      then \<lparr>result = mapped, file_after = Parsed (stringify_all mapped),
                            logged = log1\<rparr>
                      else \<lparr>result = [], file_after = data,
                            logged = log1 @ [''Failed to load seed library.json'']\<rparr>)))"

text \<open>\<open>loadVideos\<close>\<close>

definition loadVideos :: "obj list disk_file \<Rightarrow> obj list \<times> string list" where
  "loadVideos data =
     (case data of
        Parsed vs \<Rightarrow> (vs, [])
      | Malformed \<Rightarrow> ([], [''Failed to read videos.json''])
      | Absent \<Rightarrow> ([], []))"

subsection \<open>Vocabulary of the specification\<close>

text \<open>The HTTP status of a response.\<close>

fun status_of :: "response \<Rightarrow> nat" where
  "status_of (Reply n v) = n"
| "status_of Crash = 500"
| "status_of NoRoute = 404"

text \<open>A field is missing or empty: it is absent, \<open>null\<close> or the empty string.\<close>

fun missing_or_empty :: "jsval \<Rightarrow> bool" where
  "missing_or_empty JUndefined = True"
| "missing_or_empty JNull = True"
| "missing_or_empty (JStr s) = (s = [])"
| "missing_or_empty v = False"

text \<open>A field of string type, as the data model declares it: absent, \<open>null\<close> or a string.\<close>

fun string_typed :: "jsval \<Rightarrow> bool" where
  "string_typed JUndefined = True"
| "string_typed JNull = True"
| "string_typed (JStr s) = True"
| "string_typed v = False"

text \<open>The ids of a collection, in order.\<close>

definition ids :: "obj list \<Rightarrow> jsval list" where
  "ids xs = map (\<lambda>x. field x ''id'') xs"

text \<open>
  A delete removed the first record bearing the id: the record at some index has the id,
  none before it has, the new array is the old one without that index, and the response
  is 200 with that record.
\<close>

definition removed_first :: "string \<Rightarrow> obj list \<Rightarrow> obj list \<Rightarrow> response \<Rightarrow> bool" where
  "removed_first i old new resp =
     (\<exists>idx \<in> {..<length old}.
        has_id i (old ! idx) \<and> (\<forall>j \<in> {..<idx}. \<not> has_id i (old ! j))
        \<and> new = take idx old @ drop (Suc idx) old
        \<and> resp = Reply 200 (JObj (old ! idx)))"

text \<open>
  The search of the specification, for a lower-casing function \<open>lc\<close>. A case-insensitive
  substring match of the query occurs in a text: the lower-cased query is a stretch of the
  lower-cased text.
\<close>

definition ci_occurs :: "(string \<Rightarrow> string) \<Rightarrow> string \<Rightarrow> string \<Rightarrow> bool" where
  "ci_occurs lc q f =
     (\<exists>i \<in> {..length (lc f)}. take (length (lc q)) (drop i (lc f)) = lc q)"

text \<open>A field matches when it is a string in which the query occurs.\<close>

fun text_hit :: "(string \<Rightarrow> string) \<Rightarrow> string \<Rightarrow> jsval \<Rightarrow> bool" where
  "text_hit lc q (JStr s) = ci_occurs lc q s"
| "text_hit lc q v = False"

fun playlist_hit :: "(string \<Rightarrow> string) \<Rightarrow> string \<Rightarrow> jsval \<Rightarrow> bool" where
  "playlist_hit lc q (JArr ps) = (\<exists>p \<in> set ps. text_hit lc q p)"
| "playlist_hit lc q v = False"

definition track_hit :: "(string \<Rightarrow> string) \<Rightarrow> string \<Rightarrow> obj \<Rightarrow> bool" where
  "track_hit lc q t =
     (text_hit lc q (field t ''title'') \<or> text_hit lc q (field t ''artist'')
      \<or> text_hit lc q (field t ''url'') \<or> playlist_hit lc q (field t ''playlist''))"

definition video_hit :: "(string \<Rightarrow> string) \<Rightarrow> string \<Rightarrow> obj \<Rightarrow> bool" where
  "video_hit lc q v = (text_hit lc q (field v ''title'') \<or> text_hit lc q (field v ''url''))"

text \<open>Records typed as the data model declares them.\<close>

fun is_string :: "jsval \<Rightarrow> bool" where
  "is_string (JStr s) = True"
| "is_string v = False"

fun playlist_typed :: "jsval \<Rightarrow> bool" where
  "playlist_typed JUndefined = True"
| "playlist_typed JNull = True"
| "playlist_typed (JArr ps) = list_all is_string ps"
| "playlist_typed v = False"

definition track_typed :: "obj \<Rightarrow> bool" where
  "track_typed t =
     (string_typed (field t ''title'') \<and> string_typed (field t ''artist'')
      \<and> string_typed (field t ''url'') \<and> playlist_typed (field t ''playlist''))"

definition video_typed :: "obj \<Rightarrow> bool" where
  "video_typed v = (string_typed (field v ''title'') \<and> string_typed (field v ''url''))"

subsection \<open>Sample data\<close>

text \<open>
  The strings of the samples are ASCII, where \<open>toLowerCase\<close> moves A to Z to a to z and
  leaves every other character.
\<close>

definition sample_env :: env where
  "sample_env =
     \<lparr>now = 1000, rnd = 5, iso = ''2024-05-01T10:00:00.000Z'', write_ok = True,
      toLowerCase = fold_case\<rparr>"

definition empty_server :: server where
  "empty_server =
     \<lparr>tracks = [], videos = [], data_json = Absent, videos_json = Absent, console = []\<rparr>"

definition song_a :: obj where
  "song_a = [(''id'', JStr ''7-1''), (''url'', JStr ''a.mp3''), (''title'', JStr ''Song A'')]"

definition one_track_server :: server where
  "one_track_server =
     \<lparr>tracks = [song_a], videos = [], data_json = Parsed [song_a], videos_json = Absent,
      console = []\<rparr>"

definition post_title_only :: request where
  "post_title_only =
     \<lparr>verb = POST, path = [''tracks''], query_q = JUndefined,
      body = [(''title'', JStr ''Song B'')]\<rparr>"

definition post_video_clip :: request where
  "post_video_clip =
     \<lparr>verb = POST, path = [''videos''], query_q = JUndefined,
      body = [(''localUri'', JStr ''file:///clip.mp4''), (''title'', JStr ''Clip''),
              (''url'', JStr []), (''duration'', JNum 0), (''rating'', JNum 4)]\<rparr>"

definition clip_record :: obj where
  "clip_record =
     [(''id'', JStr ''1000-5''), (''url'', JNull), (''localUri'', JStr ''file:///clip.mp4''),
      (''title'', JStr ''Clip''), (''thumbnail'', JNull), (''duration'', JNull),
      (''createdAt'', JStr ''2024-05-01T10:00:00.000Z'')]"

definition post_video_untitled :: request where
  "post_video_untitled =
     \<lparr>verb = POST, path = [''videos''], query_q = JUndefined,
      body = [(''url'', JStr ''http://host/v.mp4'')]\<rparr>"

definition post_video_nowhere :: request where
  "post_video_nowhere =
     \<lparr>verb = POST, path = [''videos''], query_q = JUndefined,
      body = [(''title'', JStr ''Clip''), (''url'', JNull)]\<rparr>"

text \<open>A title that is present but falsy, and a \<open>localUri\<close> that is \<open>false\<close>.\<close>

definition post_video_title_zero :: request where
  "post_video_title_zero =
     \<lparr>verb = POST, path = [''videos''], query_q = JUndefined,
      body = [(''title'', JNum 0), (''url'', JStr ''http://host/v.mp4'')]\<rparr>"

definition post_video_no_local :: request where
  "post_video_no_local =
     \<lparr>verb = POST, path = [''videos''], query_q = JUndefined,
      body = [(''title'', JStr ''T''), (''url'', JStr ''u''), (''localUri'', JBool False)]\<rparr>"

text \<open>The optional fields of a video at creation.\<close>

definition optional_fields :: "string list" where
  "optional_fields = [''url'', ''localUri'', ''thumbnail'', ''duration'']"

definition post_song_b :: request where
  "post_song_b =
     \<lparr>verb = POST, path = [''tracks''], query_q = JUndefined,
      body = [(''url'', JStr ''b.mp3''), (''title'', JStr ''Song B''), (''rating'', JNum 3)]\<rparr>"

definition song_b :: obj where
  "song_b =
     [(''id'', JStr ''1000-5''), (''url'', JStr ''b.mp3''), (''title'', JStr ''Song B''),
      (''artist'', JUndefined), (''artwork'', JUndefined)]"

definition get_tracks :: request where
  "get_tracks = \<lparr>verb = GET, path = [''tracks''], query_q = JUndefined, body = []\<rparr>"

definition get_track_1000_5 :: request where
  "get_track_1000_5 =
     \<lparr>verb = GET, path = [''tracks'', ''1000-5''], query_q = JUndefined, body = []\<rparr>"

definition delete_track_7_1 :: request where
  "delete_track_7_1 =
     \<lparr>verb = DELETE, path = [''tracks'', ''7-1''], query_q = JUndefined, body = []\<rparr>"

definition delete_track_9_9 :: request where
  "delete_track_9_9 =
     \<lparr>verb = DELETE, path = [''tracks'', ''9-9''], query_q = JUndefined, body = []\<rparr>"

text \<open>Two records that bear the same id.\<close>

definition song_c :: obj where
  "song_c = [(''id'', JStr ''7-1''), (''url'', JStr ''c.mp3''), (''title'', JStr ''Song C'')]"

definition twin_server :: server where
  "twin_server =
     \<lparr>tracks = [song_a, song_c], videos = [], data_json = Parsed [song_a, song_c],
      videos_json = Absent, console = []\<rparr>"

text \<open>A record whose id is the one the sample clock and random draw produce.\<close>

definition old_song :: obj where
  "old_song = [(''id'', JStr ''1000-5''), (''url'', JStr ''old.mp3''), (''title'', JStr ''Old'')]"

definition clash_server :: server where
  "clash_server =
     \<lparr>tracks = [old_song], videos = [], data_json = Parsed [old_song],
      videos_json = Absent, console = []\<rparr>"

text \<open>Clock readings and random draws for successive calls of \<open>generateId\<close>.\<close>

definition sample_gen :: "nat \<Rightarrow> nat \<times> nat" where
  "sample_gen k = (1000, k)"

text \<open>A seed entry without an id.\<close>

definition seed_song :: obj where
  "seed_song = [(''url'', JStr ''d.mp3''), (''title'', JStr ''Song D''),
                (''playlist'', JArr [JStr ''Chill''])]"

definition get_tracks_search :: request where
  "get_tracks_search =
     \<lparr>verb = GET, path = [''tracks'', ''search''], query_q = JStr ''song'', body = []\<rparr>"

definition get_videos_search :: request where
  "get_videos_search =
     \<lparr>verb = GET, path = [''videos'', ''search''], query_q = JStr ''clip'', body = []\<rparr>"

definition one_video_server :: server where
  "one_video_server =
     \<lparr>tracks = [], videos = [clip_record], data_json = Absent,
      videos_json = Parsed [clip_record], console = []\<rparr>"

section \<open>Properties\<close>

subsection \<open>Routing\<close>

lemma lit_tracks: "lit ''tracks'' ''tracks''"
  by code_simp

lemma lit_videos: "lit ''videos'' ''videos''"
  by code_simp

lemma not_lit_tracks_videos: "\<not> lit ''tracks'' ''videos''"
  by code_simp

lemma resolve_tracks_list: "resolve GET [''tracks''] = Some TracksList"
  by (simp add: resolve_def lit_tracks)

lemma resolve_tracks_post: "resolve POST [''tracks''] = Some TracksPost"
  by (simp add: resolve_def lit_tracks)

lemma resolve_tracks_get: "i \<noteq> [] \<Longrightarrow> resolve GET [''tracks'', i] = Some (TracksGet i)"
  by (simp add: resolve_def lit_tracks)

lemma resolve_tracks_delete:
  "i \<noteq> [] \<Longrightarrow> resolve DELETE [''tracks'', i] = Some (TracksDelete i)"
  by (simp add: resolve_def lit_tracks)

lemma resolve_videos_list: "resolve GET [''videos''] = Some VideosList"
  by (simp add: resolve_def lit_videos not_lit_tracks_videos)

lemma resolve_videos_post: "resolve POST [''videos''] = Some VideosPost"
  by (simp add: resolve_def lit_videos not_lit_tracks_videos)

lemma resolve_videos_get: "i \<noteq> [] \<Longrightarrow> resolve GET [''videos'', i] = Some (VideosGet i)"
  by (simp add: resolve_def lit_videos not_lit_tracks_videos)

lemma resolve_videos_delete:
  "i \<noteq> [] \<Longrightarrow> resolve DELETE [''videos'', i] = Some (VideosDelete i)"
  by (simp add: resolve_def lit_videos not_lit_tracks_videos)

lemma handle_tracks_post:
  "verb r = POST \<Longrightarrow> path r = [''tracks''] \<Longrightarrow> handle e r s = tracks_post e (body r) s"
  by (simp add: handle_def resolve_tracks_post)

lemma handle_videos_post:
  "verb r = POST \<Longrightarrow> path r = [''videos''] \<Longrightarrow> handle e r s = videos_post e (body r) s"
  by (simp add: handle_def resolve_videos_post)

subsection \<open>Validation at creation\<close>

lemma missing_or_empty_falsy: "missing_or_empty v \<Longrightarrow> \<not> truthy v"
  by (cases v) auto

lemma present_truthy: "string_typed v \<Longrightarrow> \<not> missing_or_empty v \<Longrightarrow> truthy v"
  by (cases v) auto

text \<open>
  C3. POST /tracks with a missing or empty \<open>url\<close>, or a missing or empty \<open>title\<close>, answers
  400 with the body \<open>{error: "url and title are required"}\<close> and leaves the whole server
  state as it was: no record is added and nothing is written to the persisted file.
\<close>

theorem post_tracks_rejects_missing_fields:
  assumes "verb r = POST" and "path r = [''tracks'']"
    and "missing_or_empty (field (body r) ''url'')
         \<or> missing_or_empty (field (body r) ''title'')"
  shows "handle e r s =
           (Reply 400 (JObj [(''error'', JStr ''url and title are required'')]), s)"
  using assms
  by (auto simp: handle_tracks_post tracks_post_def dest: missing_or_empty_falsy)

theorem post_tracks_rejects_missing_fields_witness:
  "missing_or_empty (field (body post_title_only) ''url'')
   \<and> handle sample_env post_title_only one_track_server =
       (Reply 400 (JObj [(''error'', JStr ''url and title are required'')]), one_track_server)"
proof -
  have u: "missing_or_empty (field (body post_title_only) ''url'')"
    by (simp add: post_title_only_def)
  have "handle sample_env post_title_only one_track_server =
          (Reply 400 (JObj [(''error'', JStr ''url and title are required'')]),
           one_track_server)"
    by (rule post_tracks_rejects_missing_fields) (simp_all add: post_title_only_def)
  with u show ?thesis by simp
qed

text \<open>
  C4, as amended. POST /videos answers 400 when \<open>title\<close> is missing or empty, and answers
  400 when both \<open>url\<close> and \<open>localUri\<close> are missing or empty. What the handler tests is
  truthiness: it answers 400, and leaves the state untouched, exactly when \<open>title\<close> is falsy
  (absent, \<open>null\<close>, the empty string, 0 or \<open>false\<close>) or \<open>url\<close> and \<open>localUri\<close> are both
  falsy. When \<open>title\<close> is truthy and \<open>url\<close> or \<open>localUri\<close> is truthy it answers 201 with
  the created record, which is the new last element of the collection.
\<close>

theorem post_videos_validation:
  assumes "verb r = POST" and "path r = [''videos'']"
    and "handle e r s = (resp, s')"
  shows "(missing_or_empty (field (body r) ''title'') \<longrightarrow> status_of resp = 400 \<and> s' = s)
       \<and> (missing_or_empty (field (body r) ''url'')
            \<and> missing_or_empty (field (body r) ''localUri'') \<longrightarrow>
              status_of resp = 400 \<and> s' = s)
       \<and> (\<not> truthy (field (body r) ''title'')
            \<or> (\<not> truthy (field (body r) ''url'') \<and> \<not> truthy (field (body r) ''localUri'')) \<longrightarrow>
              status_of resp = 400 \<and> s' = s)
       \<and> (truthy (field (body r) ''title'')
            \<and> (truthy (field (body r) ''url'') \<or> truthy (field (body r) ''localUri'')) \<longrightarrow>
              resp = Reply 201 (JObj (last (videos s')))
              \<and> videos s' = videos s @ [last (videos s')])"
proof -
  have post: "videos_post e (body r) s = (resp, s')"
    using assms by (simp add: handle_videos_post)
  have falsy: "\<not> truthy (field (body r) ''title'')
            \<or> (\<not> truthy (field (body r) ''url'') \<and> \<not> truthy (field (body r) ''localUri'')) \<longrightarrow>
              status_of resp = 400 \<and> s' = s"
    using post by (auto simp: videos_post_def split: if_splits)
  have created: "truthy (field (body r) ''title'')
            \<and> (truthy (field (body r) ''url'') \<or> truthy (field (body r) ''localUri'')) \<longrightarrow>
              resp = Reply 201 (JObj (last (videos s')))
              \<and> videos s' = videos s @ [last (videos s')]"
    using post by (auto simp: videos_post_def saveVideos_def Let_def split: if_splits)
  have untitled: "missing_or_empty (field (body r) ''title'') \<longrightarrow> status_of resp = 400 \<and> s' = s"
    using falsy missing_or_empty_falsy by blast
  have nowhere: "missing_or_empty (field (body r) ''url'')
            \<and> missing_or_empty (field (body r) ''localUri'') \<longrightarrow>
              status_of resp = 400 \<and> s' = s"
    using falsy missing_or_empty_falsy by blast
  from untitled nowhere falsy created show ?thesis
    by blast
qed

theorem post_videos_validation_witness:
  "truthy (field (body post_video_clip) ''title'')
   \<and> truthy (field (body post_video_clip) ''localUri'')
   \<and> fst (handle sample_env post_video_clip empty_server) = Reply 201 (JObj clip_record)
   \<and> videos (snd (handle sample_env post_video_clip empty_server)) = [clip_record]
   \<and> truthy (field (body post_video_no_local) ''title'')
   \<and> truthy (field (body post_video_no_local) ''url'')
   \<and> status_of (fst (handle sample_env post_video_no_local empty_server)) = 201
   \<and> missing_or_empty (field (body post_video_untitled) ''title'')
   \<and> status_of (fst (handle sample_env post_video_untitled empty_server)) = 400
   \<and> missing_or_empty (field (body post_video_nowhere) ''url'')
   \<and> missing_or_empty (field (body post_video_nowhere) ''localUri'')
   \<and> status_of (fst (handle sample_env post_video_nowhere empty_server)) = 400"
proof -
  have present: "truthy (field (body post_video_clip) ''title'')"
    "truthy (field (body post_video_clip) ''localUri'')"
    "truthy (field (body post_video_no_local) ''title'')"
    "truthy (field (body post_video_no_local) ''url'')"
    by (simp_all add: post_video_clip_def post_video_no_local_def)
  have absent: "missing_or_empty (field (body post_video_untitled) ''title'')"
    "missing_or_empty (field (body post_video_nowhere) ''url'')"
    "missing_or_empty (field (body post_video_nowhere) ''localUri'')"
    by (simp_all add: post_video_untitled_def post_video_nowhere_def)
  have last_clip: "last (videos (snd (handle sample_env post_video_clip empty_server))) = clip_record"
    by code_simp
  have start: "videos empty_server = []"
    by (simp add: empty_server_def)
  have created: "fst (handle sample_env post_video_clip empty_server) = Reply 201 (JObj clip_record)
      \<and> videos (snd (handle sample_env post_video_clip empty_server)) = [clip_record]"
    using post_videos_validation [of post_video_clip sample_env empty_server
        "fst (handle sample_env post_video_clip empty_server)"
        "snd (handle sample_env post_video_clip empty_server)"] present last_clip start
    by (simp add: post_video_clip_def)
  have "fst (handle sample_env post_video_no_local empty_server)
      = Reply 201 (JObj (last (videos (snd (handle sample_env post_video_no_local empty_server)))))"
    using post_videos_validation [of post_video_no_local sample_env empty_server
        "fst (handle sample_env post_video_no_local empty_server)"
        "snd (handle sample_env post_video_no_local empty_server)"] present
    by (simp add: post_video_no_local_def)
  then have no_local: "status_of (fst (handle sample_env post_video_no_local empty_server)) = 201"
    by simp
  have untitled: "status_of (fst (handle sample_env post_video_untitled empty_server)) = 400"
    using post_videos_validation [of post_video_untitled sample_env empty_server
        "fst (handle sample_env post_video_untitled empty_server)"
        "snd (handle sample_env post_video_untitled empty_server)"] absent
    by (simp add: post_video_untitled_def)
  have nowhere: "status_of (fst (handle sample_env post_video_nowhere empty_server)) = 400"
    using post_videos_validation [of post_video_nowhere sample_env empty_server
        "fst (handle sample_env post_video_nowhere empty_server)"
        "snd (handle sample_env post_video_nowhere empty_server)"] absent
    by (simp add: post_video_nowhere_def)
  from present absent created no_local untitled nowhere show ?thesis
    by simp
qed

text \<open>
  A title that is present, and neither missing nor empty, but falsy: with a \<open>url\<close> beside
  it the request is still answered 400.
\<close>

theorem post_videos_rejects_title_zero:
  "field (body post_video_title_zero) ''title'' = JNum 0
   \<and> \<not> missing_or_empty (field (body post_video_title_zero) ''title'')
   \<and> \<not> missing_or_empty (field (body post_video_title_zero) ''url'')
   \<and> handle sample_env post_video_title_zero empty_server
       = (Reply 400 (JObj [(''error'', JStr ''title is required'')]), empty_server)"
  by (simp add: post_video_title_zero_def handle_videos_post videos_post_def)

subsection \<open>The stored video record\<close>

text \<open>
  C10. For every body that POST /videos accepts, the created record is the new last element
  of the collection and the body of the 201 response. Each of \<open>url\<close>, \<open>localUri\<close>,
  \<open>thumbnail\<close> and \<open>duration\<close> holds the submitted value when that is truthy and \<open>null\<close>
  when it is falsy: a duration of 0 and an empty-string \<open>url\<close>, \<open>localUri\<close> or
  \<open>thumbnail\<close> are stored as \<open>null\<close>. The record carries \<open>createdAt\<close> and has exactly the
  properties id, url, localUri, title, thumbnail, duration, createdAt, so every other
  submitted field is dropped.
\<close>

theorem post_videos_stores_null_for_falsy:
  assumes "verb r = POST" and "path r = [''videos'']"
    and "handle e r s = (resp, s')" and "status_of resp = 201"
  shows "resp = Reply 201 (JObj (last (videos s')))
       \<and> videos s' = videos s @ [last (videos s')]
       \<and> (\<forall>k \<in> set optional_fields.
             field (last (videos s')) k
               = (if truthy (field (body r) k) then field (body r) k else JNull))
       \<and> (field (body r) ''duration'' = JNum 0 \<longrightarrow> field (last (videos s')) ''duration'' = JNull)
       \<and> (field (body r) ''url'' = JStr [] \<longrightarrow> field (last (videos s')) ''url'' = JNull)
       \<and> (field (body r) ''localUri'' = JStr [] \<longrightarrow> field (last (videos s')) ''localUri'' = JNull)
       \<and> (field (body r) ''thumbnail'' = JStr [] \<longrightarrow> field (last (videos s')) ''thumbnail'' = JNull)
       \<and> field (last (videos s')) ''createdAt'' = JStr (iso e)
       \<and> field (last (videos s')) ''title'' = field (body r) ''title''
       \<and> map fst (last (videos s'))
           = [''id'', ''url'', ''localUri'', ''title'', ''thumbnail'', ''duration'', ''createdAt'']"
proof -
  define v where "v = [(''id'', JStr (generateId (now e) (rnd e))),
                  (''url'', or_null (field (body r) ''url'')),
                  (''localUri'', or_null (field (body r) ''localUri'')),
                  (''title'', field (body r) ''title''),
                  (''thumbnail'', or_null (field (body r) ''thumbnail'')),
                  (''duration'', or_null (field (body r) ''duration'')),
                  (''createdAt'', JStr (iso e))]"
  have post: "videos_post e (body r) s = (resp, s')"
    using assms by (simp add: handle_videos_post)
  have "resp = Reply 201 (JObj v) \<and> s' = saveVideos e (s\<lparr>videos := videos s @ [v]\<rparr>)"
    using post \<open>status_of resp = 201\<close>
    by (auto simp: videos_post_def Let_def v_def split: if_splits)
  then have resp: "resp = Reply 201 (JObj v)" and vs: "videos s' = videos s @ [v]"
    by (simp_all add: saveVideos_def)
  have l: "last (videos s') = v"
    by (simp add: vs)
  have opt: "\<forall>k \<in> set optional_fields.
      field v k = (if truthy (field (body r) k) then field (body r) k else JNull)"
    by (simp add: optional_fields_def v_def or_null_def)
  have dur: "field (body r) ''duration'' = JNum 0 \<longrightarrow> field v ''duration'' = JNull"
    by (simp add: v_def or_null_def)
  have url: "field (body r) ''url'' = JStr [] \<longrightarrow> field v ''url'' = JNull"
    by (simp add: v_def or_null_def)
  have loc: "field (body r) ''localUri'' = JStr [] \<longrightarrow> field v ''localUri'' = JNull"
    by (simp add: v_def or_null_def)
  have thumb: "field (body r) ''thumbnail'' = JStr [] \<longrightarrow> field v ''thumbnail'' = JNull"
    by (simp add: v_def or_null_def)
  have created: "field v ''createdAt'' = JStr (iso e)"
    by (simp add: v_def)
  have title: "field v ''title'' = field (body r) ''title''"
    by (simp add: v_def)
  have keys: "map fst v
      = [''id'', ''url'', ''localUri'', ''title'', ''thumbnail'', ''duration'', ''createdAt'']"
    by (simp add: v_def)
  show ?thesis
    unfolding l using resp vs opt dur url loc thumb created title keys by blast
qed

theorem post_videos_stores_null_for_falsy_witness:
  "status_of (fst (handle sample_env post_video_clip empty_server)) = 201
   \<and> field (body post_video_clip) ''duration'' = JNum 0
   \<and> field (body post_video_clip) ''url'' = JStr []
   \<and> field (last (videos (snd (handle sample_env post_video_clip empty_server)))) ''duration'' = JNull
   \<and> field (last (videos (snd (handle sample_env post_video_clip empty_server)))) ''url'' = JNull
   \<and> field (last (videos (snd (handle sample_env post_video_clip empty_server)))) ''rating'' = JUndefined"
proof -
  have accepted: "status_of (fst (handle sample_env post_video_clip empty_server)) = 201"
    by code_simp
  have sent: "field (body post_video_clip) ''duration'' = JNum 0"
    "field (body post_video_clip) ''url'' = JStr []"
    by (simp_all add: post_video_clip_def)
  have dropped: "field (last (videos (snd (handle sample_env post_video_clip empty_server)))) ''rating'' = JUndefined"
    by code_simp
  show ?thesis
    using post_videos_stores_null_for_falsy [of post_video_clip sample_env empty_server
        "fst (handle sample_env post_video_clip empty_server)"
        "snd (handle sample_env post_video_clip empty_server)"] accepted sent dropped
    by (simp add: post_video_clip_def)
qed

subsection \<open>Arrays, persistence and the effect of a request\<close>

lemma findIndex_None_iff: "findIndex P xs = None \<longleftrightarrow> (\<forall>x \<in> set xs. \<not> P x)"
  by (induction xs) (auto split: option.splits)

lemma findIndex_Some:
  "findIndex P xs = Some i \<Longrightarrow> i < length xs \<and> P (xs ! i) \<and> (\<forall>j < i. \<not> P (xs ! j))"
proof (induction xs arbitrary: i)
  case Nil
  then show ?case by simp
next
  case (Cons x xs)
  show ?case
  proof (cases "P x")
    case True
    with Cons.prems show ?thesis by simp
  next
    case False
    with Cons.prems obtain k where k: "findIndex P xs = Some k" and i: "i = Suc k"
      by (auto split: option.splits)
    from Cons.IH [OF k] have "k < length xs" "P (xs ! k)" "\<forall>j < k. \<not> P (xs ! j)"
      by simp_all
    with False i show ?thesis
      by (auto simp: less_Suc_eq_0_disj)
  qed
qed

lemma length_splice1: "i < length xs \<Longrightarrow> Suc (length (splice1 i xs)) = length xs"
  by (simp add: splice1_def) 

lemma splice1_neq: "i < length xs \<Longrightarrow> splice1 i xs \<noteq> xs"
  using length_splice1 [of i xs] by (metis n_not_Suc_n)

lemma filter_splice1:
  "i < length xs \<Longrightarrow> P (xs ! i) \<Longrightarrow>
     Suc (length (filter P (splice1 i xs))) = length (filter P xs)"
proof -
  assume i: "i < length xs" and p: "P (xs ! i)"
  have "xs = take i xs @ xs ! i # drop (Suc i) xs"
    using i by (simp add: id_take_nth_drop)
  then have "filter P xs = filter P (take i xs) @ xs ! i # filter P (drop (Suc i) xs)"
    using p by (metis filter.simps(2) filter_append)
  then show ?thesis
    by (simp add: splice1_def)
qed

lemma saveTracks_memory [simp]:
  "tracks (saveTracks e s) = tracks s" "videos (saveTracks e s) = videos s"
  "videos_json (saveTracks e s) = videos_json s"
  by (simp_all add: saveTracks_def)

lemma saveVideos_memory [simp]:
  "tracks (saveVideos e s) = tracks s" "videos (saveVideos e s) = videos s"
  "data_json (saveVideos e s) = data_json s"
  by (simp_all add: saveVideos_def)

lemma save_failing [simp]:
  "data_json (saveTracks (e\<lparr>write_ok := False\<rparr>) s) = data_json s"
  "console (saveTracks (e\<lparr>write_ok := False\<rparr>) s) = console s @ [''Failed to save data.json'']"
  "videos_json (saveVideos (e\<lparr>write_ok := False\<rparr>) s) = videos_json s"
  "console (saveVideos (e\<lparr>write_ok := False\<rparr>) s) = console s @ [''Failed to save videos.json'']"
  by (simp_all add: saveTracks_def saveVideos_def)

text \<open>What a handler does to the two arrays: nothing, an append, or the removal of one element.\<close>

lemma tracks_post_effect:
  "tracks_post e b s = (resp, s') \<Longrightarrow>
     (status_of resp = 400 \<and> s' = s)
     \<or> (\<exists>t. resp = Reply 201 (JObj t) \<and> field t ''id'' = JStr (generateId (now e) (rnd e))
           \<and> s' = saveTracks e (s\<lparr>tracks := tracks s @ [t]\<rparr>))"
  by (auto simp: tracks_post_def Let_def split: if_splits)

lemma videos_post_effect:
  "videos_post e b s = (resp, s') \<Longrightarrow>
     (status_of resp = 400 \<and> s' = s)
     \<or> (\<exists>v. resp = Reply 201 (JObj v) \<and> field v ''id'' = JStr (generateId (now e) (rnd e))
           \<and> s' = saveVideos e (s\<lparr>videos := videos s @ [v]\<rparr>))"
  by (auto simp: videos_post_def Let_def split: if_splits)

lemma tracks_delete_effect:
  "tracks_delete e i s = (resp, s') \<Longrightarrow>
     (resp = Reply 404 not_found \<and> s' = s \<and> findIndex (has_id i) (tracks s) = None)
     \<or> (\<exists>idx. findIndex (has_id i) (tracks s) = Some idx
           \<and> resp = Reply 200 (JObj (tracks s ! idx))
           \<and> s' = saveTracks e (s\<lparr>tracks := splice1 idx (tracks s)\<rparr>))"
  by (auto simp: tracks_delete_def split: option.splits)

lemma videos_delete_effect:
  "videos_delete e i s = (resp, s') \<Longrightarrow>
     (resp = Reply 404 not_found \<and> s' = s \<and> findIndex (has_id i) (videos s) = None)
     \<or> (\<exists>idx. findIndex (has_id i) (videos s) = Some idx
           \<and> resp = Reply 200 (JObj (videos s ! idx))
           \<and> s' = saveVideos e (s\<lparr>videos := splice1 idx (videos s)\<rparr>))"
  by (auto simp: videos_delete_def split: option.splits)

lemma tracks_post_write:
  "fst (tracks_post (e\<lparr>write_ok := w\<rparr>) b s) = fst (tracks_post e b s)"
  "tracks (snd (tracks_post (e\<lparr>write_ok := w\<rparr>) b s)) = tracks (snd (tracks_post e b s))"
  "videos (snd (tracks_post (e\<lparr>write_ok := w\<rparr>) b s)) = videos (snd (tracks_post e b s))"
  by (simp_all add: tracks_post_def Let_def)

lemma videos_post_write:
  "fst (videos_post (e\<lparr>write_ok := w\<rparr>) b s) = fst (videos_post e b s)"
  "tracks (snd (videos_post (e\<lparr>write_ok := w\<rparr>) b s)) = tracks (snd (videos_post e b s))"
  "videos (snd (videos_post (e\<lparr>write_ok := w\<rparr>) b s)) = videos (snd (videos_post e b s))"
  by (simp_all add: videos_post_def Let_def)

lemma tracks_delete_write:
  "fst (tracks_delete (e\<lparr>write_ok := w\<rparr>) i s) = fst (tracks_delete e i s)"
  "tracks (snd (tracks_delete (e\<lparr>write_ok := w\<rparr>) i s)) = tracks (snd (tracks_delete e i s))"
  "videos (snd (tracks_delete (e\<lparr>write_ok := w\<rparr>) i s)) = videos (snd (tracks_delete e i s))"
  by (simp_all add: tracks_delete_def split: option.splits)

lemma videos_delete_write:
  "fst (videos_delete (e\<lparr>write_ok := w\<rparr>) i s) = fst (videos_delete e i s)"
  "tracks (snd (videos_delete (e\<lparr>write_ok := w\<rparr>) i s)) = tracks (snd (videos_delete e i s))"
  "videos (snd (videos_delete (e\<lparr>write_ok := w\<rparr>) i s)) = videos (snd (videos_delete e i s))"
  by (simp_all add: videos_delete_def split: option.splits)

lemma run_write:
  "fst (run ep (e\<lparr>write_ok := w\<rparr>) r s) = fst (run ep e r s)"
  "tracks (snd (run ep (e\<lparr>write_ok := w\<rparr>) r s)) = tracks (snd (run ep e r s))"
  "videos (snd (run ep (e\<lparr>write_ok := w\<rparr>) r s)) = videos (snd (run ep e r s))"
  by (cases ep; simp add: tracks_post_write videos_post_write tracks_delete_write
        videos_delete_write)+

lemma handle_write:
  "fst (handle (e\<lparr>write_ok := w\<rparr>) r s) = fst (handle e r s)"
  "tracks (snd (handle (e\<lparr>write_ok := w\<rparr>) r s)) = tracks (snd (handle e r s))"
  "videos (snd (handle (e\<lparr>write_ok := w\<rparr>) r s)) = videos (snd (handle e r s))"
  by (simp_all add: handle_def run_write split: option.splits)


lemma lit_nonempty: "lit l seg \<Longrightarrow> l \<noteq> [] \<Longrightarrow> seg \<noteq> []"
  by (auto simp: lit_def fold_case_def)

lemma route2_route_id:
  "route2 l m p \<Longrightarrow> m \<noteq> [] \<Longrightarrow> \<exists>i. route_id l p = Some i"
  by (cases "(l, m, p)" rule: route2.cases) (auto dest: lit_nonempty)

text \<open>
  No request reaches the two search handlers: a path that matches \<open>/tracks/search\<close> has
  already matched \<open>/tracks/:id\<close>, registered before it, and likewise for videos.
\<close>

lemma resolve_never_search:
  "resolve v p \<noteq> Some TracksSearch \<and> resolve v p \<noteq> Some VideosSearch"
proof -
  have t: "\<exists>i. route_id ''tracks'' p = Some i" if "route2 ''tracks'' ''search'' p"
    using that route2_route_id by blast
  have v: "\<exists>i. route_id ''videos'' p = Some i" if "route2 ''videos'' ''search'' p"
    using that route2_route_id by blast
  show ?thesis
    by (cases "route_id ''tracks'' p"; cases "route_id ''videos'' p")
       (use t v in \<open>auto simp: resolve_def\<close>)
qed

lemma resolve_POST: "resolve POST p = Some ep \<Longrightarrow> ep = TracksPost \<or> ep = VideosPost"
  by (auto simp: resolve_def split: if_splits)

lemma resolve_DELETE:
  "resolve DELETE p = Some ep \<Longrightarrow> (\<exists>i. ep = TracksDelete i) \<or> (\<exists>i. ep = VideosDelete i)"
  by (cases "route_id ''tracks'' p"; cases "route_id ''videos'' p") (auto simp: resolve_def)

lemma resolve_GET:
  "resolve GET p = Some ep \<Longrightarrow>
     ep = TracksList \<or> ep = VideosList \<or> (\<exists>i. ep = TracksGet i) \<or> (\<exists>i. ep = VideosGet i)"
  using resolve_never_search [of GET p]
  by (cases "route_id ''tracks'' p"; cases "route_id ''videos'' p")
     (auto simp: resolve_def split: if_splits)

lemma resolve_read_or_write:
  "resolve v p = Some ep \<Longrightarrow>
     (v = GET \<and> (ep = TracksList \<or> ep = VideosList \<or> (\<exists>i. ep = TracksGet i) \<or> (\<exists>i. ep = VideosGet i)))
     \<or> (v = POST \<and> (ep = TracksPost \<or> ep = VideosPost))
     \<or> (v = DELETE \<and> ((\<exists>i. ep = TracksDelete i) \<or> (\<exists>i. ep = VideosDelete i)))"
  using resolve_POST resolve_DELETE resolve_GET by (cases v) blast+

text \<open>Every request leaves each array as it was, appends one record, or removes one.\<close>

lemma handle_effect:
  assumes "handle e r s = (resp, s')"
  shows "(s' = s \<and> (verb r = GET \<or> 400 \<le> status_of resp))
       \<or> (verb r = POST \<and> videos s' = videos s
            \<and> (\<exists>t. resp = Reply 201 (JObj t) \<and> field t ''id'' = JStr (generateId (now e) (rnd e))
                  \<and> s' = saveTracks e (s\<lparr>tracks := tracks s @ [t]\<rparr>)))
       \<or> (verb r = POST \<and> tracks s' = tracks s
            \<and> (\<exists>t. resp = Reply 201 (JObj t) \<and> field t ''id'' = JStr (generateId (now e) (rnd e))
                  \<and> s' = saveVideos e (s\<lparr>videos := videos s @ [t]\<rparr>)))
       \<or> (verb r = DELETE \<and> videos s' = videos s
            \<and> (\<exists>idx < length (tracks s). resp = Reply 200 (JObj (tracks s ! idx))
                  \<and> s' = saveTracks e (s\<lparr>tracks := splice1 idx (tracks s)\<rparr>)))
       \<or> (verb r = DELETE \<and> tracks s' = tracks s
            \<and> (\<exists>idx < length (videos s). resp = Reply 200 (JObj (videos s ! idx))
                  \<and> s' = saveVideos e (s\<lparr>videos := splice1 idx (videos s)\<rparr>)))"
proof (cases "resolve (verb r) (path r)")
  case None
  with assms show ?thesis by (auto simp: handle_def)
next
  case (Some ep)
  then have run: "run ep e r s = (resp, s')"
    using assms by (simp add: handle_def)
  from resolve_read_or_write [OF Some] consider
      (get) "verb r = GET" "ep = TracksList \<or> ep = VideosList \<or> (\<exists>i. ep = TracksGet i) \<or> (\<exists>i. ep = VideosGet i)"
    | (tp) "verb r = POST" "ep = TracksPost"
    | (vp) "verb r = POST" "ep = VideosPost"
    | (td) i where "verb r = DELETE" "ep = TracksDelete i"
    | (vd) i where "verb r = DELETE" "ep = VideosDelete i"
    by blast
  then show ?thesis
  proof cases
    case get
    with run show ?thesis by auto
  next
    case tp
    with run tracks_post_effect [of e "body r" s resp s'] show ?thesis by auto
  next
    case vp
    with run videos_post_effect [of e "body r" s resp s'] show ?thesis by auto
  next
    case td
    with run tracks_delete_effect [of e i s resp s'] show ?thesis
      by (auto simp: not_found_def dest: findIndex_Some)
  next
    case vd
    with run videos_delete_effect [of e i s resp s'] show ?thesis
      by (auto simp: not_found_def dest: findIndex_Some)
  qed
qed

subsection \<open>Failing writes\<close>

text \<open>
  C9. Take any request and let the write to the backing file fail. The response is the one
  the same request gets when the write succeeds (201 with the created record, 200 with the
  removed record), and the two arrays in memory are the ones it leaves then: nothing is
  rolled back. Neither file changes. A successful create or delete has changed an array in
  memory and has logged one line.
\<close>

theorem write_failure_is_swallowed:
  assumes "handle (e\<lparr>write_ok := False\<rparr>) r s = (resp, s')"
  shows "resp = fst (handle (e\<lparr>write_ok := True\<rparr>) r s)
       \<and> tracks s' = tracks (snd (handle (e\<lparr>write_ok := True\<rparr>) r s))
       \<and> videos s' = videos (snd (handle (e\<lparr>write_ok := True\<rparr>) r s))
       \<and> data_json s' = data_json s \<and> videos_json s' = videos_json s
       \<and> ((verb r = POST \<or> verb r = DELETE) \<and> status_of resp < 400 \<longrightarrow>
            (tracks s' \<noteq> tracks s \<or> videos s' \<noteq> videos s)
            \<and> (\<exists>line. console s' = console s @ [line]))"
proof -
  have same: "resp = fst (handle (e\<lparr>write_ok := True\<rparr>) r s)"
    "tracks s' = tracks (snd (handle (e\<lparr>write_ok := True\<rparr>) r s))"
    "videos s' = videos (snd (handle (e\<lparr>write_ok := True\<rparr>) r s))"
    using assms handle_write [where e = e and w = True and r = r and s = s]
      handle_write [where e = e and w = False and r = r and s = s] by simp_all
  have files: "data_json s' = data_json s \<and> videos_json s' = videos_json s"
    using handle_effect [OF assms] by auto
  have logged: "(verb r = POST \<or> verb r = DELETE) \<and> status_of resp < 400 \<longrightarrow>
            (tracks s' \<noteq> tracks s \<or> videos s' \<noteq> videos s)
            \<and> (\<exists>line. console s' = console s @ [line])"
    using handle_effect [OF assms] by (auto simp: splice1_neq)
  from same files logged show ?thesis by blast
qed

theorem write_failure_is_swallowed_witness:
  "verb post_song_b = POST
   \<and> fst (handle (sample_env\<lparr>write_ok := False\<rparr>) post_song_b one_track_server)
       = Reply 201 (JObj song_b)
   \<and> fst (handle (sample_env\<lparr>write_ok := True\<rparr>) post_song_b one_track_server)
       = Reply 201 (JObj song_b)
   \<and> tracks (snd (handle (sample_env\<lparr>write_ok := False\<rparr>) post_song_b one_track_server))
       = [song_a, song_b]
   \<and> tracks (snd (handle (sample_env\<lparr>write_ok := True\<rparr>) post_song_b one_track_server))
       = [song_a, song_b]
   \<and> data_json (snd (handle (sample_env\<lparr>write_ok := False\<rparr>) post_song_b one_track_server))
       = data_json one_track_server"
proof -
  have run: "handle (sample_env\<lparr>write_ok := False\<rparr>) post_song_b one_track_server
      = (Reply 201 (JObj song_b),
         one_track_server\<lparr>tracks := [song_a, song_b],
                           console := [''Failed to save data.json'']\<rparr>)"
    by code_simp
  have v: "verb post_song_b = POST"
    by (simp add: post_song_b_def)
  from write_failure_is_swallowed [OF run] v run show ?thesis
    by simp
qed


lemma handle_tracks_list:
  "verb r = GET \<Longrightarrow> path r = [''tracks''] \<Longrightarrow> handle e r s = (tracks_list s, s)"
  by (simp add: handle_def resolve_tracks_list)

lemma handle_videos_list:
  "verb r = GET \<Longrightarrow> path r = [''videos''] \<Longrightarrow> handle e r s = (videos_list s, s)"
  by (simp add: handle_def resolve_videos_list)

lemma handle_tracks_get:
  "verb r = GET \<Longrightarrow> path r = [''tracks'', i] \<Longrightarrow> i \<noteq> [] \<Longrightarrow>
     handle e r s = (tracks_get i s, s)"
  by (simp add: handle_def resolve_tracks_get)

lemma handle_tracks_delete:
  "verb r = DELETE \<Longrightarrow> path r = [''tracks'', i] \<Longrightarrow> i \<noteq> [] \<Longrightarrow>
     handle e r s = tracks_delete e i s"
  by (simp add: handle_def resolve_tracks_delete)

lemma handle_videos_delete:
  "verb r = DELETE \<Longrightarrow> path r = [''videos'', i] \<Longrightarrow> i \<noteq> [] \<Longrightarrow>
     handle e r s = videos_delete e i s"
  by (simp add: handle_def resolve_videos_delete)

subsection \<open>Insertion order\<close>

text \<open>
  C6. A successful create appends the new record at the end of its array and leaves the
  records before it, and the other array, as they were. LIST returns the whole array in
  that order. Every request leaves each array unchanged, with one record appended, or with
  one record taken out and the others in their order, so the order of insertion is the
  order in which records are read.
\<close>

theorem create_appends_and_list_returns_all:
  assumes "handle e r s = (resp, s')"
  shows "(verb r = POST \<and> path r = [''tracks''] \<and> status_of resp = 201 \<longrightarrow>
            (\<exists>t. resp = Reply 201 (JObj t) \<and> tracks s' = tracks s @ [t])
            \<and> videos s' = videos s)
       \<and> (verb r = POST \<and> path r = [''videos''] \<and> status_of resp = 201 \<longrightarrow>
            (\<exists>v. resp = Reply 201 (JObj v) \<and> videos s' = videos s @ [v])
            \<and> tracks s' = tracks s)
       \<and> (verb r = GET \<and> path r = [''tracks''] \<longrightarrow>
            resp = Reply 200 (JArr (map JObj (tracks s))) \<and> s' = s)
       \<and> (verb r = GET \<and> path r = [''videos''] \<longrightarrow>
            resp = Reply 200 (JArr (map JObj (videos s))) \<and> s' = s)
       \<and> (tracks s' = tracks s \<or> (\<exists>t. tracks s' = tracks s @ [t])
            \<or> (\<exists>i < length (tracks s). tracks s' = take i (tracks s) @ drop (Suc i) (tracks s)))
       \<and> (videos s' = videos s \<or> (\<exists>v. videos s' = videos s @ [v])
            \<or> (\<exists>i < length (videos s). videos s' = take i (videos s) @ drop (Suc i) (videos s)))"
proof -
  have tp: "verb r = POST \<and> path r = [''tracks''] \<and> status_of resp = 201 \<longrightarrow>
            (\<exists>t. resp = Reply 201 (JObj t) \<and> tracks s' = tracks s @ [t])
            \<and> videos s' = videos s"
    using assms tracks_post_effect [of e "body r" s resp s']
    by (auto simp: handle_tracks_post)
  have vp: "verb r = POST \<and> path r = [''videos''] \<and> status_of resp = 201 \<longrightarrow>
            (\<exists>v. resp = Reply 201 (JObj v) \<and> videos s' = videos s @ [v])
            \<and> tracks s' = tracks s"
    using assms videos_post_effect [of e "body r" s resp s']
    by (auto simp: handle_videos_post)
  have tl: "verb r = GET \<and> path r = [''tracks''] \<longrightarrow>
            resp = Reply 200 (JArr (map JObj (tracks s))) \<and> s' = s"
    using assms by (auto simp: handle_tracks_list tracks_list_def)
  have vl: "verb r = GET \<and> path r = [''videos''] \<longrightarrow>
            resp = Reply 200 (JArr (map JObj (videos s))) \<and> s' = s"
    using assms by (auto simp: handle_videos_list videos_list_def)
  have t: "tracks s' = tracks s \<or> (\<exists>t. tracks s' = tracks s @ [t])
            \<or> (\<exists>i < length (tracks s). tracks s' = take i (tracks s) @ drop (Suc i) (tracks s))"
    using handle_effect [OF assms] by (auto simp: splice1_def)
  have v: "videos s' = videos s \<or> (\<exists>v. videos s' = videos s @ [v])
            \<or> (\<exists>i < length (videos s). videos s' = take i (videos s) @ drop (Suc i) (videos s))"
    using handle_effect [OF assms] by (auto simp: splice1_def)
  from tp vp tl vl t v show ?thesis by blast
qed

theorem create_appends_and_list_returns_all_witness:
  "verb post_song_b = POST \<and> path post_song_b = [''tracks'']
   \<and> fst (handle sample_env post_song_b one_track_server) = Reply 201 (JObj song_b)
   \<and> tracks (snd (handle sample_env post_song_b one_track_server))
       = tracks one_track_server @ [song_b]
   \<and> verb get_tracks = GET \<and> path get_tracks = [''tracks'']
   \<and> handle sample_env get_tracks one_track_server
       = (Reply 200 (JArr (map JObj (tracks one_track_server))), one_track_server)"
proof -
  have post: "handle sample_env post_song_b one_track_server
      = (Reply 201 (JObj song_b),
         one_track_server\<lparr>tracks := [song_a, song_b],
                           data_json := Parsed (stringify_all [song_a, song_b])\<rparr>)"
    by code_simp
  have r: "verb post_song_b = POST" "path post_song_b = [''tracks'']"
    "verb get_tracks = GET" "path get_tracks = [''tracks'']"
    by (simp_all add: post_song_b_def get_tracks_def)
  have old: "tracks one_track_server = [song_a]"
    by (simp add: one_track_server_def)
  have appended: "fst (handle sample_env post_song_b one_track_server) = Reply 201 (JObj song_b)
      \<and> tracks (snd (handle sample_env post_song_b one_track_server))
          = tracks one_track_server @ [song_b]"
    using create_appends_and_list_returns_all [OF post] r post old by simp
  have listed: "handle sample_env get_tracks one_track_server
      = (Reply 200 (JArr (map JObj (tracks one_track_server))), one_track_server)"
    using create_appends_and_list_returns_all
      [of sample_env get_tracks one_track_server
          "fst (handle sample_env get_tracks one_track_server)"
          "snd (handle sample_env get_tracks one_track_server)"] r
    by (simp add: prod_eq_iff)
  from r appended listed show ?thesis by simp
qed

subsection \<open>Deletion\<close>

lemma no_match_after_splice1:
  assumes "i < length xs" and "P (xs ! i)" and "length (filter P xs) = 1"
  shows "\<forall>x \<in> set (splice1 i xs). \<not> P x"
proof -
  have "length (filter P (splice1 i xs)) = 0"
    using filter_splice1 [of i xs P] assms by simp
  then show ?thesis
    by (simp add: filter_empty_conv)
qed

lemma delete_effect:
  assumes idx: "findIndex (has_id i) old = Some idx"
  shows "removed_first i old (splice1 idx old) (Reply 200 (JObj (old ! idx)))"
    and "Suc (length (splice1 idx old)) = length old"
    and "length (filter (has_id i) old) = 1 \<longrightarrow> (\<forall>x \<in> set (splice1 idx old). \<not> has_id i x)"
proof -
  from findIndex_Some [OF idx]
  have a: "idx < length old" "has_id i (old ! idx)" "\<forall>j < idx. \<not> has_id i (old ! j)"
    by simp_all
  show "removed_first i old (splice1 idx old) (Reply 200 (JObj (old ! idx)))"
    unfolding removed_first_def splice1_def using a by auto
  show "Suc (length (splice1 idx old)) = length old"
    using a(1) by (rule length_splice1)
  show "length (filter (has_id i) old) = 1 \<longrightarrow> (\<forall>x \<in> set (splice1 idx old). \<not> has_id i x)"
    using no_match_after_splice1 [of idx old "has_id i"] a by blast
qed



lemma tracks_delete_spec:
  assumes d: "tracks_delete e i s = (resp, s')"
  shows "((\<exists>x \<in> set (tracks s). has_id i x) \<longrightarrow>
              removed_first i (tracks s) (tracks s') resp
              \<and> Suc (length (tracks s')) = length (tracks s)
              \<and> videos s' = videos s
              \<and> (length (filter (has_id i) (tracks s)) = 1 \<longrightarrow>
                   (\<forall>x \<in> set (tracks s'). \<not> has_id i x)))
       \<and> (\<not> (\<exists>x \<in> set (tracks s). has_id i x) \<longrightarrow>
              resp = Reply 404 (JObj [(''error'', JStr ''Not found'')]) \<and> s' = s)"
proof (cases "findIndex (has_id i) (tracks s)")
  case None
  then have "\<not> (\<exists>x \<in> set (tracks s). has_id i x)"
    by (simp add: findIndex_None_iff)
  moreover have "resp = Reply 404 (JObj [(''error'', JStr ''Not found'')]) \<and> s' = s"
    using d None by (auto simp: tracks_delete_def not_found_def)
  ultimately show ?thesis by blast
next
  case (Some idx)
  have eqs: "resp = Reply 200 (JObj (tracks s ! idx))" "tracks s' = splice1 idx (tracks s)"
    using d Some by (auto simp: tracks_delete_def)
  have other: "videos s' = videos s"
    using d Some by (auto simp: tracks_delete_def)
  have found: "\<exists>x \<in> set (tracks s). has_id i x"
    using Some by (metis findIndex_None_iff option.distinct(1))
  have "removed_first i (tracks s) (tracks s') resp"
    unfolding eqs by (rule delete_effect(1) [OF Some])
  moreover have "Suc (length (tracks s')) = length (tracks s)"
    unfolding eqs by (rule delete_effect(2) [OF Some])
  moreover have "length (filter (has_id i) (tracks s)) = 1 \<longrightarrow>
                   (\<forall>x \<in> set (tracks s'). \<not> has_id i x)"
    unfolding eqs by (rule delete_effect(3) [OF Some])
  ultimately show ?thesis using other found by blast
qed

lemma videos_delete_spec:
  assumes d: "videos_delete e i s = (resp, s')"
  shows "((\<exists>x \<in> set (videos s). has_id i x) \<longrightarrow>
              removed_first i (videos s) (videos s') resp
              \<and> Suc (length (videos s')) = length (videos s)
              \<and> tracks s' = tracks s
              \<and> (length (filter (has_id i) (videos s)) = 1 \<longrightarrow>
                   (\<forall>x \<in> set (videos s'). \<not> has_id i x)))
       \<and> (\<not> (\<exists>x \<in> set (videos s). has_id i x) \<longrightarrow>
              resp = Reply 404 (JObj [(''error'', JStr ''Not found'')]) \<and> s' = s)"
proof (cases "findIndex (has_id i) (videos s)")
  case None
  then have "\<not> (\<exists>x \<in> set (videos s). has_id i x)"
    by (simp add: findIndex_None_iff)
  moreover have "resp = Reply 404 (JObj [(''error'', JStr ''Not found'')]) \<and> s' = s"
    using d None by (auto simp: videos_delete_def not_found_def)
  ultimately show ?thesis by blast
next
  case (Some idx)
  have eqs: "resp = Reply 200 (JObj (videos s ! idx))" "videos s' = splice1 idx (videos s)"
    using d Some by (auto simp: videos_delete_def)
  have other: "tracks s' = tracks s"
    using d Some by (auto simp: videos_delete_def)
  have found: "\<exists>x \<in> set (videos s). has_id i x"
    using Some by (metis findIndex_None_iff option.distinct(1))
  have "removed_first i (videos s) (videos s') resp"
    unfolding eqs by (rule delete_effect(1) [OF Some])
  moreover have "Suc (length (videos s')) = length (videos s)"
    unfolding eqs by (rule delete_effect(2) [OF Some])
  moreover have "length (filter (has_id i) (videos s)) = 1 \<longrightarrow>
                   (\<forall>x \<in> set (videos s'). \<not> has_id i x)"
    unfolding eqs by (rule delete_effect(3) [OF Some])
  ultimately show ?thesis using other found by blast
qed

text \<open>
  C2, as amended. DELETE with an id present in the collection removes the first record
  bearing that id from its position: the length decreases by one, the remaining records
  keep their order, the other collection is untouched and the response is 200 with the
  removed record. The id is absent from the collection afterwards when exactly one record
  bore it. DELETE with an id absent from the collection answers 404 with the body
  \<open>{error: "Not found"}\<close> and leaves the whole state as it was.
\<close>

theorem delete_removes_first_match:
  assumes "verb r = DELETE" and "i \<noteq> []" and "handle e r s = (resp, s')"
  shows "(path r = [''tracks'', i] \<longrightarrow>
           ((\<exists>x \<in> set (tracks s). has_id i x) \<longrightarrow>
              removed_first i (tracks s) (tracks s') resp
              \<and> Suc (length (tracks s')) = length (tracks s)
              \<and> videos s' = videos s
              \<and> (length (filter (has_id i) (tracks s)) = 1 \<longrightarrow>
                   (\<forall>x \<in> set (tracks s'). \<not> has_id i x)))
           \<and> (\<not> (\<exists>x \<in> set (tracks s). has_id i x) \<longrightarrow>
                resp = Reply 404 (JObj [(''error'', JStr ''Not found'')]) \<and> s' = s))
       \<and> (path r = [''videos'', i] \<longrightarrow>
           ((\<exists>x \<in> set (videos s). has_id i x) \<longrightarrow>
              removed_first i (videos s) (videos s') resp
              \<and> Suc (length (videos s')) = length (videos s)
              \<and> tracks s' = tracks s
              \<and> (length (filter (has_id i) (videos s)) = 1 \<longrightarrow>
                   (\<forall>x \<in> set (videos s'). \<not> has_id i x)))
           \<and> (\<not> (\<exists>x \<in> set (videos s). has_id i x) \<longrightarrow>
                resp = Reply 404 (JObj [(''error'', JStr ''Not found'')]) \<and> s' = s))"
proof -
  have t: "tracks_delete e i s = (resp, s')" if "path r = [''tracks'', i]"
    using assms that by (simp add: handle_tracks_delete)
  have v: "videos_delete e i s = (resp, s')" if "path r = [''videos'', i]"
    using assms that by (simp add: handle_videos_delete)
  show ?thesis
    using tracks_delete_spec [OF t] videos_delete_spec [OF v] by blast
qed


theorem delete_removes_first_match_witness:
  "verb delete_track_7_1 = DELETE \<and> path delete_track_7_1 = [''tracks'', ''7-1'']
   \<and> filter (has_id ''7-1'') (tracks one_track_server) = [song_a]
   \<and> fst (handle sample_env delete_track_7_1 one_track_server) = Reply 200 (JObj song_a)
   \<and> tracks (snd (handle sample_env delete_track_7_1 one_track_server)) = []
   \<and> verb delete_track_9_9 = DELETE \<and> path delete_track_9_9 = [''tracks'', ''9-9'']
   \<and> filter (has_id ''9-9'') (tracks one_track_server) = []
   \<and> handle sample_env delete_track_9_9 one_track_server
       = (Reply 404 (JObj [(''error'', JStr ''Not found'')]), one_track_server)"
proof -
  have r: "verb delete_track_7_1 = DELETE" "path delete_track_7_1 = [''tracks'', ''7-1'']"
    "verb delete_track_9_9 = DELETE" "path delete_track_9_9 = [''tracks'', ''9-9'']"
    by (simp_all add: delete_track_7_1_def delete_track_9_9_def)
  have once: "filter (has_id ''7-1'') (tracks one_track_server) = [song_a]"
    by (simp add: one_track_server_def song_a_def has_id_def)
  have none: "filter (has_id ''9-9'') (tracks one_track_server) = []"
    by (simp add: one_track_server_def song_a_def has_id_def)
  have present: "\<exists>x \<in> set (tracks one_track_server). has_id ''7-1'' x"
    using once by (metis filter_empty_conv list.distinct(1))
  have absent: "\<not> (\<exists>x \<in> set (tracks one_track_server). has_id ''9-9'' x)"
    using none by (simp add: filter_empty_conv)
  have resp: "fst (handle sample_env delete_track_7_1 one_track_server) = Reply 200 (JObj song_a)"
    by code_simp
  have one: "length (tracks one_track_server) = 1"
    by (simp add: one_track_server_def)
  note known = delete_removes_first_match
      [of delete_track_7_1 "''7-1''" sample_env one_track_server
          "fst (handle sample_env delete_track_7_1 one_track_server)"
          "snd (handle sample_env delete_track_7_1 one_track_server)"]
  have "Suc (length (tracks (snd (handle sample_env delete_track_7_1 one_track_server))))
       = length (tracks one_track_server)"
    using known r(1,2) present by simp
  then have gone: "tracks (snd (handle sample_env delete_track_7_1 one_track_server)) = []"
    using one by simp
  note unknown = delete_removes_first_match
      [of delete_track_9_9 "''9-9''" sample_env one_track_server
          "fst (handle sample_env delete_track_9_9 one_track_server)"
          "snd (handle sample_env delete_track_9_9 one_track_server)"]
  have kept: "handle sample_env delete_track_9_9 one_track_server
       = (Reply 404 (JObj [(''error'', JStr ''Not found'')]), one_track_server)"
    using unknown r(3,4) absent by (simp add: prod_eq_iff)
  from r once none resp gone kept show ?thesis
    by blast
qed

text \<open>
  With two records under one id, the id is still listed after a successful DELETE.
\<close>

theorem delete_leaves_second_record_with_same_id:
  "fst (handle sample_env delete_track_7_1 twin_server) = Reply 200 (JObj song_a)
   \<and> fst (handle sample_env get_tracks (snd (handle sample_env delete_track_7_1 twin_server)))
       = Reply 200 (JArr [JObj song_c])
   \<and> field song_c ''id'' = JStr ''7-1''"
  by code_simp

subsection \<open>Identifiers\<close>

lemma of_char_digit: "d < 10 \<Longrightarrow> (of_char (digit_char d) :: nat) = 48 + d"
  by (simp add: digit_char_def)

lemma digit_char_inj: "a < 10 \<Longrightarrow> b < 10 \<Longrightarrow> digit_char a = digit_char b \<Longrightarrow> a = b"
  by (metis of_char_digit add_left_cancel)

lemma digit_char_not_dash: "d < 10 \<Longrightarrow> digit_char d \<noteq> CHR ''-''"
proof
  assume "d < 10" and "digit_char d = CHR ''-''"
  then have "(of_char (CHR ''-'') :: nat) = 48 + d"
    using of_char_digit by metis
  then show False by simp
qed

lemma show_nat_nonempty [simp]: "show_nat n \<noteq> []" "[] \<noteq> show_nat n"
  by (subst show_nat.simps, simp)+

lemma show_nat_no_dash: "CHR ''-'' \<notin> set (show_nat n)"
proof (induction n rule: show_nat.induct)
  case (1 n)
  show ?case
  proof (cases "n < 10")
    case True
    then show ?thesis
      using digit_char_not_dash [of n] by (subst show_nat.simps) auto
  next
    case False
    have "n mod 10 < 10" by simp
    then have "digit_char (n mod 10) \<noteq> CHR ''-''"
      by (rule digit_char_not_dash)
    with False 1 show ?thesis
      by (subst show_nat.simps) auto
  qed
qed

lemma show_nat_inj: "show_nat m = show_nat n \<Longrightarrow> m = n"
proof (induction m arbitrary: n rule: show_nat.induct)
  case (1 m)
  show ?case
  proof (cases "m < 10")
    case small_m: True
    show ?thesis
    proof (cases "n < 10")
      case True
      with small_m 1(2) show ?thesis
        by (simp add: show_nat.simps [of m] show_nat.simps [of n] digit_char_inj)
    next
      case False
      with small_m 1(2) show ?thesis
        by (simp add: show_nat.simps [of m] show_nat.simps [of n])
    qed
  next
    case big_m: False
    show ?thesis
    proof (cases "n < 10")
      case True
      with big_m 1(2) show ?thesis
        by (simp add: show_nat.simps [of m] show_nat.simps [of n])
    next
      case False
      with big_m 1(2)
      have eq: "show_nat (m div 10) = show_nat (n div 10)"
        and last: "digit_char (m mod 10) = digit_char (n mod 10)"
        by (simp_all add: show_nat.simps [of m] show_nat.simps [of n])
      from 1(1) [OF big_m eq] have "m div 10 = n div 10" .
      moreover from last have "m mod 10 = n mod 10"
        by (simp add: digit_char_inj)
      ultimately show ?thesis
        by (metis div_mult_mod_eq)
    qed
  qed
qed

lemma split_at_dash:
  "CHR ''-'' \<notin> set a \<Longrightarrow> CHR ''-'' \<notin> set a' \<Longrightarrow>
     a @ CHR ''-'' # b = a' @ CHR ''-'' # b' \<Longrightarrow> a = a' \<and> b = b'"
proof (induction a arbitrary: a')
  case Nil
  then show ?case by (cases a') auto
next
  case (Cons c a)
  then show ?case by (cases a') auto
qed

lemma generateId_nonempty: "generateId t r \<noteq> []"
  by (simp add: generateId_def)

lemma generateId_inj: "generateId t r = generateId t' r' \<longleftrightarrow> t = t' \<and> r = r'"
proof
  assume "generateId t r = generateId t' r'"
  then have "show_nat t @ CHR ''-'' # show_nat r = show_nat t' @ CHR ''-'' # show_nat r'"
    by (simp add: generateId_def)
  then have "show_nat t = show_nat t' \<and> show_nat r = show_nat r'"
    using split_at_dash show_nat_no_dash by blast
  then show "t = t' \<and> r = r'"
    by (simp add: show_nat_inj)
qed simp

subsection \<open>Uniqueness of identifiers\<close>

lemma ids_append [simp]: "ids (xs @ ys) = ids xs @ ids ys"
  by (simp add: ids_def)

lemma ids_splice1: "ids (splice1 i xs) = splice1 i (ids xs)"
  by (simp add: ids_def splice1_def take_map drop_map)

lemma distinct_splice1: "distinct xs \<Longrightarrow> distinct (splice1 i xs)"
proof -
  assume d: "distinct xs"
  have "distinct (take i xs @ drop i xs)"
    using d by simp
  then have "distinct (take i xs)" "distinct (drop i xs)" "set (take i xs) \<inter> set (drop i xs) = {}"
    by (simp_all only: distinct_append)
  moreover have "set (drop (Suc i) xs) \<subseteq> set (drop i xs)"
    by (simp add: set_drop_subset_set_drop)
  moreover have "distinct (drop (Suc i) xs)"
    using d by simp
  ultimately show ?thesis
    unfolding splice1_def by (simp only: distinct_append) blast
qed

text \<open>
  C5, as amended. The id of a created record is the string
  \<open>`${Date.now()}-${Math.floor(Math.random() * 10000)}`\<close>: it is never empty, and two such
  strings are equal exactly when both the clock reading and the random draw are equal.
  The handlers do not compare the new id with the ids in the collection. Whenever the
  generated id is not yet borne by a record of the collection, a collection with unique ids
  has unique ids after the request; a DELETE keeps ids unique in every case.
\<close>

theorem created_id_and_uniqueness:
  assumes "handle e r s = (resp, s')"
  shows "generateId (now e) (rnd e) \<noteq> []
       \<and> (\<forall>t' r'. generateId (now e) (rnd e) = generateId t' r' \<longleftrightarrow> now e = t' \<and> rnd e = r')
       \<and> (verb r = POST \<and> status_of resp = 201 \<longrightarrow>
            (\<exists>t. resp = Reply 201 (JObj t)
                 \<and> field t ''id'' = JStr (generateId (now e) (rnd e))
                 \<and> (tracks s' = tracks s @ [t] \<and> videos s' = videos s
                      \<or> videos s' = videos s @ [t] \<and> tracks s' = tracks s)))
       \<and> (distinct (ids (tracks s))
            \<and> JStr (generateId (now e) (rnd e)) \<notin> set (ids (tracks s)) \<longrightarrow>
              distinct (ids (tracks s')))
       \<and> (distinct (ids (videos s))
            \<and> JStr (generateId (now e) (rnd e)) \<notin> set (ids (videos s)) \<longrightarrow>
              distinct (ids (videos s')))
       \<and> (verb r = DELETE \<longrightarrow>
            (distinct (ids (tracks s)) \<longrightarrow> distinct (ids (tracks s')))
            \<and> (distinct (ids (videos s)) \<longrightarrow> distinct (ids (videos s'))))"
proof -
  note eff = handle_effect [OF assms]
  have shape: "generateId (now e) (rnd e) \<noteq> []"
    by (rule generateId_nonempty)
  have inj: "\<forall>t' r'. generateId (now e) (rnd e) = generateId t' r' \<longleftrightarrow> now e = t' \<and> rnd e = r'"
    by (simp add: generateId_inj)
  have created: "verb r = POST \<and> status_of resp = 201 \<longrightarrow>
            (\<exists>t. resp = Reply 201 (JObj t)
                 \<and> field t ''id'' = JStr (generateId (now e) (rnd e))
                 \<and> (tracks s' = tracks s @ [t] \<and> videos s' = videos s
                      \<or> videos s' = videos s @ [t] \<and> tracks s' = tracks s))"
    using eff by auto
  have t: "distinct (ids (tracks s))
            \<and> JStr (generateId (now e) (rnd e)) \<notin> set (ids (tracks s)) \<longrightarrow>
              distinct (ids (tracks s'))"
    using eff by (auto simp: ids_splice1 distinct_splice1) (auto simp: ids_def)
  have v: "distinct (ids (videos s))
            \<and> JStr (generateId (now e) (rnd e)) \<notin> set (ids (videos s)) \<longrightarrow>
              distinct (ids (videos s'))"
    using eff by (auto simp: ids_splice1 distinct_splice1) (auto simp: ids_def)
  have d: "verb r = DELETE \<longrightarrow>
            (distinct (ids (tracks s)) \<longrightarrow> distinct (ids (tracks s')))
            \<and> (distinct (ids (videos s)) \<longrightarrow> distinct (ids (videos s')))"
    using eff by (auto simp: ids_splice1 distinct_splice1)
  from shape inj created t v d show ?thesis by blast
qed


theorem created_id_and_uniqueness_witness:
  "generateId (now sample_env) (rnd sample_env) = ''1000-5''
   \<and> verb post_song_b = POST
   \<and> status_of (fst (handle sample_env post_song_b one_track_server)) = 201
   \<and> distinct (ids (tracks one_track_server))
   \<and> JStr ''1000-5'' \<notin> set (ids (tracks one_track_server))
   \<and> ids (tracks (snd (handle sample_env post_song_b one_track_server)))
       = [JStr ''7-1'', JStr ''1000-5'']
   \<and> distinct (ids (tracks (snd (handle sample_env post_song_b one_track_server))))"
proof -
  have g: "generateId (now sample_env) (rnd sample_env) = ''1000-5''"
    by code_simp
  have v: "verb post_song_b = POST"
    by (simp add: post_song_b_def)
  have ok: "status_of (fst (handle sample_env post_song_b one_track_server)) = 201"
    by code_simp
  have old: "ids (tracks one_track_server) = [JStr ''7-1'']"
    by (simp add: ids_def one_track_server_def song_a_def)
  have new: "ids (tracks (snd (handle sample_env post_song_b one_track_server)))
       = [JStr ''7-1'', JStr ''1000-5'']"
    by code_simp
  have "distinct (ids (tracks (snd (handle sample_env post_song_b one_track_server))))"
    using created_id_and_uniqueness
      [of sample_env post_song_b one_track_server
          "fst (handle sample_env post_song_b one_track_server)"
          "snd (handle sample_env post_song_b one_track_server)"] g old
    by simp
  with g v ok old new show ?thesis by simp
qed

text \<open>
  Two creates that read the same millisecond and the same random draw: the second one
  succeeds and its record bears the id of the record already in the collection.
\<close>

theorem second_create_repeats_id:
  "fst (handle sample_env post_song_b (snd (handle sample_env post_song_b empty_server)))
     = Reply 201 (JObj song_b)
   \<and> ids (tracks (snd (handle sample_env post_song_b empty_server))) = [JStr ''1000-5'']
   \<and> ids (tracks (snd (handle sample_env post_song_b
                          (snd (handle sample_env post_song_b empty_server)))))
       = [JStr ''1000-5'', JStr ''1000-5'']"
  by code_simp

subsection \<open>Reading a record back\<close>

lemma find_appended:
  "\<forall>x \<in> set xs. \<not> P x \<Longrightarrow> P t \<Longrightarrow> find P (xs @ [t]) = Some t"
  by (induction xs) auto

text \<open>
  C7, as amended. Let POST /tracks answer 201 with a record whose id no record of the
  collection bore before. A GET /tracks/:id with that id, sent next, answers 200 with the
  same record: it carries \<open>url\<close>, \<open>title\<close>, \<open>artist\<close> and \<open>artwork\<close> as submitted, and
  the id generated by the server.
\<close>

theorem get_after_post_returns_created:
  assumes "verb r = POST" and "path r = [''tracks'']"
    and "handle e r s = (Reply 201 (JObj t), s1)"
    and "field t ''id'' = JStr i"
    and "\<forall>x \<in> set (tracks s). \<not> has_id i x"
    and "verb g = GET" and "path g = [''tracks'', i]"
  shows "handle e' g s1 = (Reply 200 (JObj t), s1)
       \<and> i = generateId (now e) (rnd e)
       \<and> field t ''url'' = field (body r) ''url''
       \<and> field t ''title'' = field (body r) ''title''
       \<and> field t ''artist'' = field (body r) ''artist''
       \<and> field t ''artwork'' = field (body r) ''artwork''
       \<and> map fst t = [''id'', ''url'', ''title'', ''artist'', ''artwork'']"
proof -
  have post: "tracks_post e (body r) s = (Reply 201 (JObj t), s1)"
    using assms(1-3) by (simp add: handle_tracks_post)
  then have t: "t = [(''id'', JStr (generateId (now e) (rnd e))),
                  (''url'', field (body r) ''url''),
                  (''title'', field (body r) ''title''),
                  (''artist'', field (body r) ''artist''),
                  (''artwork'', field (body r) ''artwork'')]"
    and s1: "tracks s1 = tracks s @ [t]"
    by (auto simp: tracks_post_def Let_def split: if_splits)
  have i: "i = generateId (now e) (rnd e)"
    using assms(4) by (simp add: t)
  then have "i \<noteq> []"
    by (simp add: generateId_nonempty)
  then have "handle e' g s1 = (tracks_get i s1, s1)"
    using assms(6,7) by (simp add: handle_tracks_get)
  moreover have "find (has_id i) (tracks s1) = Some t"
    unfolding s1 using assms(4,5) by (intro find_appended) (simp_all add: has_id_def)
  ultimately have get: "handle e' g s1 = (Reply 200 (JObj t), s1)"
    by (simp add: tracks_get_def)
  have kept: "field t ''url'' = field (body r) ''url''"
    "field t ''title'' = field (body r) ''title''"
    "field t ''artist'' = field (body r) ''artist''"
    "field t ''artwork'' = field (body r) ''artwork''"
    "map fst t = [''id'', ''url'', ''title'', ''artist'', ''artwork'']"
    by (simp_all add: t)
  from get i kept show ?thesis by blast
qed

theorem get_after_post_returns_created_witness:
  "verb post_song_b = POST \<and> path post_song_b = [''tracks'']
   \<and> fst (handle sample_env post_song_b one_track_server) = Reply 201 (JObj song_b)
   \<and> field song_b ''id'' = JStr ''1000-5''
   \<and> filter (has_id ''1000-5'') (tracks one_track_server) = []
   \<and> verb get_track_1000_5 = GET \<and> path get_track_1000_5 = [''tracks'', ''1000-5'']
   \<and> fst (handle sample_env get_track_1000_5
             (snd (handle sample_env post_song_b one_track_server)))
       = Reply 200 (JObj song_b)
   \<and> field song_b ''title'' = field (body post_song_b) ''title''"
proof -
  have r: "verb post_song_b = POST" "path post_song_b = [''tracks'']"
    "verb get_track_1000_5 = GET" "path get_track_1000_5 = [''tracks'', ''1000-5'']"
    by (simp_all add: post_song_b_def get_track_1000_5_def)
  have created: "fst (handle sample_env post_song_b one_track_server) = Reply 201 (JObj song_b)"
    by code_simp
  then have post: "handle sample_env post_song_b one_track_server
      = (Reply 201 (JObj song_b), snd (handle sample_env post_song_b one_track_server))"
    by (simp add: prod_eq_iff)
  have i: "field song_b ''id'' = JStr ''1000-5''"
    by (simp add: song_b_def)
  have none: "filter (has_id ''1000-5'') (tracks one_track_server) = []"
    by (simp add: one_track_server_def song_a_def has_id_def)
  then have fresh: "\<forall>x \<in> set (tracks one_track_server). \<not> has_id ''1000-5'' x"
    by (simp add: filter_empty_conv)
  note readback = get_after_post_returns_created
      [OF r(1,2) post i fresh r(3,4), of sample_env]
  from readback have got: "fst (handle sample_env get_track_1000_5
             (snd (handle sample_env post_song_b one_track_server)))
       = Reply 200 (JObj song_b)"
    by simp
  from readback have title: "field song_b ''title'' = field (body post_song_b) ''title''"
    by blast
  from r created i none got title show ?thesis
    by blast
qed

text \<open>
  When the collection already holds a record under the generated id, the GET answers with
  that older record, not with the one just created.
\<close>

theorem get_after_post_returns_older_record:
  "fst (handle sample_env post_song_b clash_server) = Reply 201 (JObj song_b)
   \<and> field song_b ''id'' = JStr ''1000-5''
   \<and> fst (handle sample_env get_track_1000_5 (snd (handle sample_env post_song_b clash_server)))
       = Reply 200 (JObj old_song)
   \<and> field old_song ''title'' = JStr ''Old''
   \<and> field (body post_song_b) ''title'' = JStr ''Song B''"
  by code_simp

subsection \<open>Start-up\<close>

lemma field_missing: "k \<notin> set (map fst ps) \<Longrightarrow> field ps k = JUndefined"
  by (induction ps) auto

lemma field_obj_set: "field (obj_set k v ps) k' = (if k' = k then v else field ps k')"
  by (induction ps) auto

lemma field_spread:
  "distinct (map fst src) \<Longrightarrow>
     field (spread tgt src) k = (if k \<in> set (map fst src) then field src k else field tgt k)"
proof (induction src arbitrary: tgt)
  case Nil
  then show ?case by simp
next
  case (Cons p src)
  obtain k0 v0 where p: "p = (k0, v0)" by (cases p)
  from Cons.prems p have d: "distinct (map fst src)" and n: "k0 \<notin> set (map fst src)"
    by simp_all
  show ?case
    using Cons.IH [OF d, of "obj_set k0 v0 tgt"] n
    by (auto simp: p field_obj_set)
qed

lemma length_ensure_ids [simp]: "length (ensure_ids gen k arr) = length arr"
  by (induction arr arbitrary: k) simp_all

lemma nth_ensure_ids:
  "j < length arr \<Longrightarrow>
     ensure_ids gen k arr ! j
       = spread [(''id'', JStr (generateId (fst (gen (k + j))) (snd (gen (k + j)))))] (arr ! j)"
proof (induction arr arbitrary: k j)
  case Nil
  then show ?case by simp
next
  case (Cons t arr)
  show ?case
  proof (cases j)
    case 0
    then show ?thesis by simp
  next
    case (Suc j')
    with Cons.prems have "j' < length arr" by simp
    from Cons.IH [OF this, of "Suc k"] Suc show ?thesis by simp
  qed
qed

lemma loadTracks_seeded:
  assumes "data = Absent \<or> data = Malformed"
  shows "result (loadTracks gen True data (Parsed arr)) = ensure_ids gen 0 arr"
    and "file_after (loadTracks gen True data (Parsed arr))
           = Parsed (stringify_all (ensure_ids gen 0 arr))"
  using assms by (auto simp: loadTracks_def Let_def)

lemma loadTracks_unseeded:
  assumes "data = Absent \<or> data = Malformed" and "seed = Absent \<or> seed = Malformed"
  shows "result (loadTracks gen ok data seed) = []"
    and "file_after (loadTracks gen ok data seed) = data"
  using assms by (auto simp: loadTracks_def Let_def)

text \<open>
  When the write of the seeded array throws, the \<open>catch\<close> of the seed branch takes over:
  the function logs that the seed could not be loaded and returns the empty array.
\<close>

lemma loadTracks_write_fails:
  assumes "data = Absent \<or> data = Malformed"
  shows "result (loadTracks gen False data (Parsed arr)) = []"
    and "file_after (loadTracks gen False data (Parsed arr)) = data"
    and "last (logged (loadTracks gen False data (Parsed arr)))
           = ''Failed to load seed library.json''"
  using assms by (auto simp: loadTracks_def Let_def)

text \<open>
  C8, as amended. Let the persisted tracks file be absent or unreadable as JSON. With a
  seed array and a write that succeeds, \<open>loadTracks\<close> returns one record per seed entry, in
  order, and writes that array to the persisted file. Each record has the properties of
  its seed entry; its id is the entry's own id when the entry has one and a newly generated
  id otherwise. With the seed file absent or unreadable the result is the empty array and
  the persisted file stays as it was. A malformed persisted file gives the same array, and
  the same file written, as a missing one.
\<close>

theorem loadTracks_falls_back_to_seed:
  assumes "data = Absent \<or> data = Malformed"
  shows "(seed = Parsed arr \<and> ok \<longrightarrow>
            length (result (loadTracks gen ok data seed)) = length arr
            \<and> file_after (loadTracks gen ok data seed)
                = Parsed (stringify_all (result (loadTracks gen ok data seed)))
            \<and> (\<forall>j < length arr. distinct (map fst (arr ! j)) \<longrightarrow>
                  field (result (loadTracks gen ok data seed) ! j) ''id''
                    = (if ''id'' \<in> set (map fst (arr ! j)) then field (arr ! j) ''id''
                       else JStr (generateId (fst (gen j)) (snd (gen j))))
                  \<and> (\<forall>k. k \<noteq> ''id'' \<longrightarrow>
                        field (result (loadTracks gen ok data seed) ! j) k = field (arr ! j) k)))
       \<and> (seed = Absent \<or> seed = Malformed \<longrightarrow>
            result (loadTracks gen ok data seed) = []
            \<and> file_after (loadTracks gen ok data seed) = data)
       \<and> result (loadTracks gen ok data seed) = result (loadTracks gen ok Absent seed)
       \<and> (seed = Parsed arr \<and> ok \<longrightarrow>
            file_after (loadTracks gen ok data seed) = file_after (loadTracks gen ok Absent seed))"
proof -
  have seeded: "seed = Parsed arr \<and> ok \<longrightarrow>
            length (result (loadTracks gen ok data seed)) = length arr
            \<and> file_after (loadTracks gen ok data seed)
                = Parsed (stringify_all (result (loadTracks gen ok data seed)))
            \<and> (\<forall>j < length arr. distinct (map fst (arr ! j)) \<longrightarrow>
                  field (result (loadTracks gen ok data seed) ! j) ''id''
                    = (if ''id'' \<in> set (map fst (arr ! j)) then field (arr ! j) ''id''
                       else JStr (generateId (fst (gen j)) (snd (gen j))))
                  \<and> (\<forall>k. k \<noteq> ''id'' \<longrightarrow>
                        field (result (loadTracks gen ok data seed) ! j) k = field (arr ! j) k))"
  proof (intro impI)
    assume a: "seed = Parsed arr \<and> ok"
    have r: "result (loadTracks gen ok data seed) = ensure_ids gen 0 arr"
      and f: "file_after (loadTracks gen ok data seed)
           = Parsed (stringify_all (ensure_ids gen 0 arr))"
      using a loadTracks_seeded [OF assms] by simp_all
    have "field (ensure_ids gen 0 arr ! j) ''id''
            = (if ''id'' \<in> set (map fst (arr ! j)) then field (arr ! j) ''id''
               else JStr (generateId (fst (gen j)) (snd (gen j))))
          \<and> (\<forall>k. k \<noteq> ''id'' \<longrightarrow> field (ensure_ids gen 0 arr ! j) k = field (arr ! j) k)"
      if "j < length arr" and "distinct (map fst (arr ! j))" for j
    proof -
      show ?thesis
        using that by (auto simp: nth_ensure_ids field_spread field_missing)
    qed
    then show "length (result (loadTracks gen ok data seed)) = length arr
            \<and> file_after (loadTracks gen ok data seed)
                = Parsed (stringify_all (result (loadTracks gen ok data seed)))
            \<and> (\<forall>j < length arr. distinct (map fst (arr ! j)) \<longrightarrow>
                  field (result (loadTracks gen ok data seed) ! j) ''id''
                    = (if ''id'' \<in> set (map fst (arr ! j)) then field (arr ! j) ''id''
                       else JStr (generateId (fst (gen j)) (snd (gen j))))
                  \<and> (\<forall>k. k \<noteq> ''id'' \<longrightarrow>
                        field (result (loadTracks gen ok data seed) ! j) k = field (arr ! j) k))"
      unfolding r f by simp
  qed
  have unseeded: "seed = Absent \<or> seed = Malformed \<longrightarrow>
            result (loadTracks gen ok data seed) = []
            \<and> file_after (loadTracks gen ok data seed) = data"
    using loadTracks_unseeded [OF assms] by blast
  have same: "result (loadTracks gen ok data seed) = result (loadTracks gen ok Absent seed)"
    using assms by (cases seed) (auto simp: loadTracks_def Let_def)
  have same_file: "seed = Parsed arr \<and> ok \<longrightarrow>
            file_after (loadTracks gen ok data seed) = file_after (loadTracks gen ok Absent seed)"
    using assms by (auto simp: loadTracks_def Let_def)
  from seeded unseeded same same_file show ?thesis by blast
qed


theorem loadTracks_falls_back_to_seed_witness:
  "distinct (map fst seed_song) \<and> ''id'' \<notin> set (map fst seed_song)
   \<and> distinct (map fst song_a) \<and> ''id'' \<in> set (map fst song_a)
   \<and> length (result (loadTracks sample_gen True Malformed (Parsed [seed_song, song_a]))) = 2
   \<and> field (result (loadTracks sample_gen True Malformed (Parsed [seed_song, song_a])) ! 0) ''id''
       = JStr ''1000-0''
   \<and> field (result (loadTracks sample_gen True Malformed (Parsed [seed_song, song_a])) ! 1) ''id''
       = JStr ''7-1''
   \<and> result (loadTracks sample_gen True Malformed (Parsed [seed_song, song_a]))
       = result (loadTracks sample_gen True Absent (Parsed [seed_song, song_a]))
   \<and> result (loadTracks sample_gen True Malformed Malformed) = []"
proof -
  have keys: "distinct (map fst seed_song)" "''id'' \<notin> set (map fst seed_song)"
    "distinct (map fst song_a)" "''id'' \<in> set (map fst song_a)"
    by (simp_all add: seed_song_def song_a_def)
  have g: "generateId (fst (sample_gen 0)) (snd (sample_gen 0)) = ''1000-0''"
    by code_simp
  have own: "field song_a ''id'' = JStr ''7-1''"
    by (simp add: song_a_def)
  have d: "(Malformed :: obj list disk_file) = Absent \<or> (Malformed :: obj list disk_file) = Malformed"
    by simp
  note seeded = loadTracks_falls_back_to_seed
      [OF d, where seed = "Parsed [seed_song, song_a]" and arr = "[seed_song, song_a]"
         and ok = True and gen = sample_gen]
  from seeded [THEN conjunct1]
  have part: "length (result (loadTracks sample_gen True Malformed (Parsed [seed_song, song_a])))
        = length [seed_song, song_a]
      \<and> (\<forall>j < length [seed_song, song_a]. distinct (map fst ([seed_song, song_a] ! j)) \<longrightarrow>
          field (result (loadTracks sample_gen True Malformed (Parsed [seed_song, song_a])) ! j) ''id''
            = (if ''id'' \<in> set (map fst ([seed_song, song_a] ! j))
               then field ([seed_song, song_a] ! j) ''id''
               else JStr (generateId (fst (sample_gen j)) (snd (sample_gen j)))))"
    by blast
  then have len: "length (result (loadTracks sample_gen True Malformed (Parsed [seed_song, song_a]))) = 2"
    by simp
  from part [THEN conjunct2, rule_format, of 0]
  have first: "field (result (loadTracks sample_gen True Malformed (Parsed [seed_song, song_a])) ! 0) ''id''
       = JStr ''1000-0''"
    using keys g by simp
  from part [THEN conjunct2, rule_format, of 1]
  have second: "field (result (loadTracks sample_gen True Malformed (Parsed [seed_song, song_a])) ! 1) ''id''
       = JStr ''7-1''"
    using keys own by simp
  from seeded [THEN conjunct2, THEN conjunct2, THEN conjunct1]
  have same: "result (loadTracks sample_gen True Malformed (Parsed [seed_song, song_a]))
       = result (loadTracks sample_gen True Absent (Parsed [seed_song, song_a]))" .
  from loadTracks_falls_back_to_seed
      [OF d, where seed = Malformed and arr = "[]" and ok = True and gen = sample_gen,
       THEN conjunct2, THEN conjunct1]
  have none: "result (loadTracks sample_gen True Malformed Malformed) = []"
    by simp
  from keys len first second same none show ?thesis
    by blast
qed

text \<open>
  A seed entry that has an id keeps it, although an id was generated for it; and when the
  write of the seeded array throws, that array is neither written nor returned.
\<close>

theorem seed_entry_keeps_id_and_failed_write_loads_nothing:
  "result (loadTracks sample_gen True Absent (Parsed [song_a])) = [song_a]
   \<and> field song_a ''id'' = JStr ''7-1''
   \<and> generateId (fst (sample_gen 0)) (snd (sample_gen 0)) = ''1000-0''
   \<and> result (loadTracks sample_gen False Absent (Parsed [seed_song])) = []
   \<and> file_after (loadTracks sample_gen False Absent (Parsed [seed_song])) = Absent"
  by code_simp

subsection \<open>Search\<close>

lemma lit_search: "lit ''search'' ''search''"
  by code_simp

lemma handle_videos_get:
  "verb r = GET \<Longrightarrow> path r = [''videos'', i] \<Longrightarrow> i \<noteq> [] \<Longrightarrow>
     handle e r s = (videos_get i s, s)"
  by (simp add: handle_def resolve_videos_get)

lemma find_None_iff_no_match: "find P xs = None \<longleftrightarrow> (\<forall>x \<in> set xs. \<not> P x)"
  by (induction xs) auto

text \<open>
  C1. Search, with an empty result for an empty query and otherwise the records in which
  the query occurs, is what GET /tracks/search and GET /videos/search are registered to
  perform. In the program no request performs it: Express takes the first
  route that matches, \<open>/tracks/:id\<close> is registered before \<open>/tracks/search\<close> and matches
  that path with \<open>id = "search"\<close>, and the handler of \<open>/tracks/:id\<close> answers without
  calling \<open>next\<close>. So a search request is answered as a read of the record whose id is
  \<open>search\<close>: with 404 and \<open>{error: "Not found"}\<close> when no record has that id, whatever the
  query and the collection are. The same holds for videos.
\<close>

theorem search_request_is_answered_by_get_by_id:
  assumes "verb r = GET"
  shows "(path r = [''tracks'', ''search''] \<longrightarrow>
            handle e r s = (tracks_get ''search'' s, s)
            \<and> ((\<forall>x \<in> set (tracks s). \<not> has_id ''search'' x) \<longrightarrow>
                  handle e r s = (Reply 404 (JObj [(''error'', JStr ''Not found'')]), s)))
       \<and> (path r = [''videos'', ''search''] \<longrightarrow>
            handle e r s = (videos_get ''search'' s, s)
            \<and> ((\<forall>x \<in> set (videos s). \<not> has_id ''search'' x) \<longrightarrow>
                  handle e r s = (Reply 404 (JObj [(''error'', JStr ''Not found'')]), s)))"
proof -
  have t: "handle e r s = (tracks_get ''search'' s, s)" if "path r = [''tracks'', ''search'']"
    using assms that by (simp add: handle_tracks_get)
  have v: "handle e r s = (videos_get ''search'' s, s)" if "path r = [''videos'', ''search'']"
    using assms that by (simp add: handle_videos_get)
  have t404: "tracks_get ''search'' s = Reply 404 (JObj [(''error'', JStr ''Not found'')])"
    if "\<forall>x \<in> set (tracks s). \<not> has_id ''search'' x"
    using that by (simp add: tracks_get_def not_found_def find_None_iff_no_match [THEN iffD2])
  have v404: "videos_get ''search'' s = Reply 404 (JObj [(''error'', JStr ''Not found'')])"
    if "\<forall>x \<in> set (videos s). \<not> has_id ''search'' x"
    using that by (simp add: videos_get_def not_found_def find_None_iff_no_match [THEN iffD2])
  from t v t404 v404 show ?thesis by metis
qed

theorem search_request_is_answered_by_get_by_id_witness:
  "verb get_tracks_search = GET \<and> path get_tracks_search = [''tracks'', ''search'']
   \<and> query_q get_tracks_search = JStr ''song''
   \<and> filter (has_id ''search'') (tracks one_track_server) = []
   \<and> handle sample_env get_tracks_search one_track_server
       = (Reply 404 (JObj [(''error'', JStr ''Not found'')]), one_track_server)
   \<and> tracks_search (toLowerCase sample_env) (JStr ''song'') one_track_server
       = Reply 200 (JArr [JObj song_a])
   \<and> verb get_videos_search = GET \<and> path get_videos_search = [''videos'', ''search'']
   \<and> query_q get_videos_search = JStr ''clip''
   \<and> filter (has_id ''search'') (videos one_video_server) = []
   \<and> handle sample_env get_videos_search one_video_server
       = (Reply 404 (JObj [(''error'', JStr ''Not found'')]), one_video_server)
   \<and> videos_search (toLowerCase sample_env) (JStr ''clip'') one_video_server
       = Reply 200 (JArr [JObj clip_record])"
proof -
  have r: "verb get_tracks_search = GET" "path get_tracks_search = [''tracks'', ''search'']"
    "query_q get_tracks_search = JStr ''song''"
    "verb get_videos_search = GET" "path get_videos_search = [''videos'', ''search'']"
    "query_q get_videos_search = JStr ''clip''"
    by (simp_all add: get_tracks_search_def get_videos_search_def)
  have none: "filter (has_id ''search'') (tracks one_track_server) = []"
    "filter (has_id ''search'') (videos one_video_server) = []"
    by (simp_all add: one_track_server_def one_video_server_def song_a_def clip_record_def
          has_id_def)
  then have no: "\<forall>x \<in> set (tracks one_track_server). \<not> has_id ''search'' x"
    "\<forall>x \<in> set (videos one_video_server). \<not> has_id ''search'' x"
    by (simp_all add: filter_empty_conv)
  have would: "tracks_search (toLowerCase sample_env) (JStr ''song'') one_track_server
       = Reply 200 (JArr [JObj song_a])"
    "videos_search (toLowerCase sample_env) (JStr ''clip'') one_video_server
       = Reply 200 (JArr [JObj clip_record])"
    by code_simp+
  have t: "handle sample_env get_tracks_search one_track_server
       = (Reply 404 (JObj [(''error'', JStr ''Not found'')]), one_track_server)"
    using search_request_is_answered_by_get_by_id
      [OF r(1), of sample_env one_track_server] r(2) no(1) by blast
  have v: "handle sample_env get_videos_search one_video_server
       = (Reply 404 (JObj [(''error'', JStr ''Not found'')]), one_video_server)"
    using search_request_is_answered_by_get_by_id
      [OF r(4), of sample_env one_video_server] r(5) no(2) by blast
  from r none would t v show ?thesis
    by blast
qed

text \<open>
  The two search handlers themselves compute the search of the specification on records
  typed as the data model declares them: were a request to reach them, an empty or missing
  query would give the empty array, and any other query the records that match, in the
  order of the collection.
\<close>

lemma startsWith_take: "startsWith s q \<longleftrightarrow> take (length q) s = q"
  by (induction s q rule: startsWith.induct) auto

lemma includes_str_iff:
  "includes_str s q \<longleftrightarrow> (\<exists>i \<in> {..length s}. take (length q) (drop i s) = q)"
proof (induction s)
  case Nil
  then show ?case by auto
next
  case (Cons c cs)
  have "(\<exists>i \<in> {..length (c # cs)}. take (length q) (drop i (c # cs)) = q)
      \<longleftrightarrow> take (length q) (c # cs) = q \<or> (\<exists>i \<in> {..length cs}. take (length q) (drop i cs) = q)"
  proof
    assume "\<exists>i \<in> {..length (c # cs)}. take (length q) (drop i (c # cs)) = q"
    then obtain i where i: "i \<le> length (c # cs)" "take (length q) (drop i (c # cs)) = q"
      by auto
    show "take (length q) (c # cs) = q \<or> (\<exists>i \<in> {..length cs}. take (length q) (drop i cs) = q)"
    proof (cases i)
      case 0
      with i show ?thesis by simp
    next
      case (Suc j)
      with i have "j \<le> length cs" "take (length q) (drop j cs) = q" by simp_all
      then show ?thesis by auto
    qed
  next
    assume "take (length q) (c # cs) = q \<or> (\<exists>i \<in> {..length cs}. take (length q) (drop i cs) = q)"
    then show "\<exists>i \<in> {..length (c # cs)}. take (length q) (drop i (c # cs)) = q"
    proof
      assume "take (length q) (c # cs) = q"
      then have "take (length q) (drop 0 (c # cs)) = q" by simp
      then show ?thesis by (intro bexI [of _ 0]) simp_all
    next
      assume "\<exists>i \<in> {..length cs}. take (length q) (drop i cs) = q"
      then obtain j where "j \<le> length cs" "take (length q) (drop j cs) = q" by auto
      then have "take (length q) (drop (Suc j) (c # cs)) = q" "Suc j \<le> length (c # cs)"
        by simp_all
      then show ?thesis by (intro bexI [of _ "Suc j"]) simp_all
    qed
  qed
  with Cons show ?case
    by (simp add: startsWith_take)
qed

lemma includes_lowered: "includes_str (lc s) (lc q) \<longleftrightarrow> ci_occurs lc q s"
  by (simp add: includes_str_iff ci_occurs_def)

lemma field_match_typed:
  "string_typed v \<Longrightarrow> field_match lc v (lc q) = Inr (text_hit lc q v)"
  by (cases v) (simp_all add: includes_lowered)

lemma playlist_some_typed:
  "list_all is_string ps \<Longrightarrow>
     playlist_some lc ps (lc q) = Inr (\<exists>p \<in> set ps. text_hit lc q p)"
proof (induction ps)
  case Nil
  then show ?case by simp
next
  case (Cons p ps)
  then obtain s where "p = JStr s" by (cases p) auto
  with Cons show ?case by (simp add: includes_lowered)
qed

lemma playlist_match_typed:
  "playlist_typed v \<Longrightarrow> playlist_match lc v (lc q) = Inr (playlist_hit lc q v)"
  by (cases v) (simp_all add: playlist_some_typed)

lemma or_else_Inr [simp]: "or_else (Inr a) (Inr b) = Inr (a \<or> b)"
  by (cases a) simp_all

lemma track_matches_typed:
  "track_typed t \<Longrightarrow> track_matches lc (lc q) t = Inr (track_hit lc q t)"
  by (simp add: track_typed_def track_matches_def track_hit_def field_match_typed
        playlist_match_typed)

lemma video_matches_typed:
  "video_typed v \<Longrightarrow> video_matches lc (lc q) v = Inr (video_hit lc q v)"
  by (simp add: video_typed_def video_matches_def video_hit_def field_match_typed)

lemma filter_js_total:
  "\<forall>x \<in> set xs. P x = Inr (Q x) \<Longrightarrow> filter_js P xs = Inr (filter Q xs)"
  by (induction xs) simp_all

text \<open>
  \<open>toLowerCase\<close> gives the empty string for the empty string only; that is all the two
  lemmas ask of \<open>lc\<close>.
\<close>

lemma tracks_search_typed:
  assumes "\<forall>t \<in> set (tracks s). track_typed t" and "lc q = [] \<longleftrightarrow> q = []"
  shows "tracks_search lc JUndefined s = Reply 200 (JArr [])"
    and "tracks_search lc (JStr q) s =
           Reply 200 (JArr (if q = [] then []
                            else map JObj (filter (track_hit lc q) (tracks s))))"
proof -
  show "tracks_search lc JUndefined s = Reply 200 (JArr [])"
    by (simp add: tracks_search_def)
  have "filter_js (track_matches lc (lc q)) (tracks s)
      = Inr (filter (track_hit lc q) (tracks s))"
    using assms(1) by (intro filter_js_total) (simp add: track_matches_typed)
  then show "tracks_search lc (JStr q) s =
           Reply 200 (JArr (if q = [] then []
                            else map JObj (filter (track_hit lc q) (tracks s))))"
    using assms(2) by (simp add: tracks_search_def)
qed

lemma videos_search_typed:
  assumes "\<forall>v \<in> set (videos s). video_typed v" and "lc q = [] \<longleftrightarrow> q = []"
  shows "videos_search lc JUndefined s = Reply 200 (JArr [])"
    and "videos_search lc (JStr q) s =
           Reply 200 (JArr (if q = [] then []
                            else map JObj (filter (video_hit lc q) (videos s))))"
proof -
  show "videos_search lc JUndefined s = Reply 200 (JArr [])"
    by (simp add: videos_search_def)
  have "filter_js (video_matches lc (lc q)) (videos s)
      = Inr (filter (video_hit lc q) (videos s))"
    using assms(1) by (intro filter_js_total) (simp add: video_matches_typed)
  then show "videos_search lc (JStr q) s =
           Reply 200 (JArr (if q = [] then []
                            else map JObj (filter (video_hit lc q) (videos s))))"
    using assms(2) by (simp add: videos_search_def)
qed

end
